theory Spec2Isabelle
  imports Main
begin

section \<open>Go strings\<close>

text \<open>
  A Go string is a sequence of bytes; \<^typ>\<open>string\<close> (a list of 8-bit characters) is the
  same thing. The functions of package \<open>strings\<close> that RockRawler.go calls are written
  out here on bytes, under their Go names.
\<close>

text \<open>\<open>strings.HasPrefix(s, prefix)\<close>: \<open>len(s) >= len(prefix) && s[:len(prefix)] == prefix\<close>.\<close>

definition HasPrefix :: "string \<Rightarrow> string \<Rightarrow> bool" where
  "HasPrefix s pre = (length pre \<le> length s \<and> take (length pre) s = pre)"

text \<open>
  \<open>strings.Cut(s, sep)\<close>: the text before and after the first (leftmost) occurrence of
  \<open>sep\<close> in \<open>s\<close>, or nothing when \<open>sep\<close> does not occur. \<open>Contains\<close>, \<open>SplitN\<close> with
  \<open>n = 2\<close> and \<open>Split\<close> are all given by the leftmost occurrence.
\<close>

fun Cut :: "string \<Rightarrow> string \<Rightarrow> (string \<times> string) option" where
  "Cut [] sep = (if sep = [] then Some ([], []) else None)"
| "Cut (c # cs) sep =
     (if HasPrefix (c # cs) sep then Some ([], drop (length sep) (c # cs))
      else (case Cut cs sep of
              None \<Rightarrow> None
            | Some (before, after) \<Rightarrow> Some (c # before, after)))"

definition Contains :: "string \<Rightarrow> string \<Rightarrow> bool" where
  "Contains s substr = (Cut s substr \<noteq> None)"

text \<open>\<open>strings.SplitN(s, sep, 2)\<close>: at most two pieces, cut at the first \<open>sep\<close>.\<close>

definition SplitN2 :: "string \<Rightarrow> string \<Rightarrow> string list" where
  "SplitN2 s sep =
     (case Cut s sep of None \<Rightarrow> [s] | Some (before, after) \<Rightarrow> [before, after])"

lemma Cut_shorter:
  "Cut s sep = Some (before, after) \<Longrightarrow> sep \<noteq> [] \<Longrightarrow> length after < length s"
proof (induction s arbitrary: before)
  case Nil
  then show ?case by simp
next
  case (Cons c cs)
  show ?case
  proof (cases "HasPrefix (c # cs) sep")
    case True
    with Cons.prems have "after = drop (length sep) (c # cs)" by simp
    with Cons.prems(2) show ?thesis by (cases sep) simp_all
  next
    case False
    with Cons.prems obtain b where "Cut cs sep = Some (b, after)"
      by (auto split: option.splits)
    with Cons.IH Cons.prems(2) have "length after < length cs" by blast
    then show ?thesis by simp
  qed
qed

text \<open>
  \<open>strings.Split(s, sep)\<close> for a non-empty separator: all pieces between the
  non-overlapping occurrences of \<open>sep\<close>, found left to right. (With an empty separator Go
  explodes the string into its UTF-8 sequences; the program never calls it so, and the
  model returns the string whole there.)
\<close>

function Split :: "string \<Rightarrow> string \<Rightarrow> string list" where
  "Split s sep =
     (if sep = [] then [s]
      else (case Cut s sep of
              None \<Rightarrow> [s]
            | Some (before, after) \<Rightarrow> before # Split after sep))"
  by pat_completeness auto
termination
  by (relation "measure (\<lambda>(s, sep). length s)") (auto dest: Cut_shorter)

declare Split.simps [simp del]

text \<open>\<open>strings.Join(elems, sep)\<close>.\<close>

fun Join :: "string list \<Rightarrow> string \<Rightarrow> string" where
  "Join [] sep = []"
| "Join [e] sep = e"
| "Join (e # es) sep = e @ sep @ Join es sep"

text \<open>
  \<open>strings.ReplaceAll(s, old, new)\<close> for a non-empty \<open>old\<close>: every non-overlapping
  occurrence of \<open>old\<close>, left to right, becomes \<open>new\<close>.
\<close>

definition ReplaceAll :: "string \<Rightarrow> string \<Rightarrow> string \<Rightarrow> string" where
  "ReplaceAll s old new = Join (Split s old) new"

text \<open>
  \<open>strings.TrimSpace(s)\<close> removes the leading and the trailing white space, as
  \<open>unicode.IsSpace\<close> defines it. On bytes, these are the UTF-8 encodings of the code
  points with the White\_Space property: the six ASCII ones, U+0085, U+00A0, U+1680,
  U+2000 to U+200A, U+2028, U+2029, U+202F, U+205F and U+3000.
\<close>

definition space_runes :: "string list" where
  "space_runes =
     [[CHR 0x09], [CHR 0x0A], [CHR 0x0B], [CHR 0x0C], [CHR 0x0D], [CHR 0x20],
      [CHR 0xC2, CHR 0x85], [CHR 0xC2, CHR 0xA0],
      [CHR 0xE1, CHR 0x9A, CHR 0x80],
      [CHR 0xE2, CHR 0x80, CHR 0x80], [CHR 0xE2, CHR 0x80, CHR 0x81],
      [CHR 0xE2, CHR 0x80, CHR 0x82], [CHR 0xE2, CHR 0x80, CHR 0x83],
      [CHR 0xE2, CHR 0x80, CHR 0x84], [CHR 0xE2, CHR 0x80, CHR 0x85],
      [CHR 0xE2, CHR 0x80, CHR 0x86], [CHR 0xE2, CHR 0x80, CHR 0x87],
      [CHR 0xE2, CHR 0x80, CHR 0x88], [CHR 0xE2, CHR 0x80, CHR 0x89],
      [CHR 0xE2, CHR 0x80, CHR 0x8A],
      [CHR 0xE2, CHR 0x80, CHR 0xA8], [CHR 0xE2, CHR 0x80, CHR 0xA9],
      [CHR 0xE2, CHR 0x80, CHR 0xAF],
      [CHR 0xE2, CHR 0x81, CHR 0x9F],
      [CHR 0xE3, CHR 0x80, CHR 0x80]]"

text \<open>The number of bytes of the white-space code point a string starts with, or 0.\<close>

definition leading_space :: "string \<Rightarrow> nat" where
  "leading_space s =
     (case find (HasPrefix s) space_runes of None \<Rightarrow> 0 | Some w \<Rightarrow> length w)"

text \<open>The same for the code point a string ends with.\<close>

definition trailing_space :: "string \<Rightarrow> nat" where
  "trailing_space s =
     (case find (\<lambda>w. HasPrefix (rev s) (rev w)) space_runes of
        None \<Rightarrow> 0 | Some w \<Rightarrow> length w)"

lemma leading_space_Nil: "leading_space [] = 0"
  by (simp add: leading_space_def space_runes_def HasPrefix_def)

lemma trailing_space_Nil: "trailing_space [] = 0"
  by (simp add: trailing_space_def space_runes_def HasPrefix_def)

function TrimLeft :: "string \<Rightarrow> string" where
  "TrimLeft s = (if leading_space s = 0 then s else TrimLeft (drop (leading_space s) s))"
  by pat_completeness auto
termination
proof (relation "measure length")
  fix s :: string
  assume "leading_space s \<noteq> 0"
  then have "s \<noteq> []" using leading_space_Nil by auto
  with \<open>leading_space s \<noteq> 0\<close> show "(drop (leading_space s) s, s) \<in> measure length"
    by simp
qed simp

function TrimRight :: "string \<Rightarrow> string" where
  "TrimRight s =
     (if trailing_space s = 0 then s
      else TrimRight (take (length s - trailing_space s) s))"
  by pat_completeness auto
termination
proof (relation "measure length")
  fix s :: string
  assume "trailing_space s \<noteq> 0"
  then have "s \<noteq> []" using trailing_space_Nil by auto
  with \<open>trailing_space s \<noteq> 0\<close>
  show "(take (length s - trailing_space s) s, s) \<in> measure length"
    by simp
qed simp

declare TrimLeft.simps [simp del] TrimRight.simps [simp del]

definition TrimSpace :: "string \<Rightarrow> string" where
  "TrimSpace s = TrimRight (TrimLeft s)"

section \<open>parseHeaders\<close>

text \<open>
  What can go wrong in the program: \<open>MalformedHeaders\<close> is the error value that
  \<open>parseHeaders\<close> returns (\<open>errors.New("headers flag not formatted properly (no colon to
  separate header and value)")\<close>), \<open>IndexOutOfRange\<close> is the run-time panic of an index
  expression such as \<open>parts[1]\<close>, \<open>RegexpError\<close> the panic of \<open>regexp.MustCompile\<close>, and
  \<open>URLParseError\<close> the error of \<open>url.Parse\<close>.
\<close>

datatype error = MalformedHeaders | IndexOutOfRange | RegexpError | URLParseError

type_synonym headers = "string \<rightharpoonup> string"

text \<open>The loop of \<open>parseHeaders\<close> over the declarations that \<open>Split\<close> returned.\<close>

fun add_headers :: "string list \<Rightarrow> headers \<Rightarrow> error + headers" where
  "add_headers [] headers = Inr headers"
| "add_headers (header # rest) headers =
     (if Contains header '': '' then
        (case SplitN2 header '': '' of
           p0 # p1 # _ \<Rightarrow> add_headers rest (headers(TrimSpace p0 \<mapsto> TrimSpace p1))
         | _ \<Rightarrow> Inl IndexOutOfRange)
      else if Contains header '':'' then
        (case SplitN2 header '':'' of
           p0 # p1 # _ \<Rightarrow> add_headers rest (headers(TrimSpace p0 \<mapsto> TrimSpace p1))
         | _ \<Rightarrow> Inl IndexOutOfRange)
      else add_headers rest headers)"

definition parseHeaders :: "string \<Rightarrow> error + headers" where
  "parseHeaders rawHeaders =
     (if rawHeaders \<noteq> [] then
        (if \<not> Contains rawHeaders '':'' then Inl MalformedHeaders
         else add_headers (Split rawHeaders '';;'') Map.empty)
      else Inr Map.empty)"

section \<open>The seed URL\<close>

text \<open>
  Lines 38 to 41 of \<open>StartCrawler\<close>: a URL that does not start with \<open>http\<close> gets
  \<open>http://\<close> in front.
\<close>

definition default_scheme :: "string \<Rightarrow> string" where
  "default_scheme url = (if \<not> HasPrefix url ''http'' then ''http://'' @ url else url)"

section \<open>Regular expressions\<close>

text \<open>
  The fragment of Go's \<open>regexp\<close> (RE2 syntax) that the URL filter of line 70 is written
  in: literals, \<open>.\<close>, escaped punctuation, groups, \<open>|\<close>, \<open>*\<close> and \<open>?\<close>.
  \<open>Never\<close> matches nothing; it only arises inside the matcher.
\<close>

datatype regex =
    Never
  | Eps
  | Lit char
  | Dot
  | Seq regex regex
  | Alt regex regex
  | Star regex

definition backslash :: char where
  "backslash = CHR 0x5C"

definition alnum :: "char \<Rightarrow> bool" where
  "alnum c =
     (let n = (of_char c :: nat)
      in (48 \<le> n \<and> n \<le> 57) \<or> (65 \<le> n \<and> n \<le> 90) \<or> (97 \<le> n \<and> n \<le> 122))"

text \<open>Characters whose meaning in a pattern lies outside the fragment.\<close>

definition outside_fragment :: "char \<Rightarrow> bool" where
  "outside_fragment c =
     (c \<in> set ''+[{^$'' \<or> 128 \<le> (of_char c :: nat))"

fun seq_of :: "regex list \<Rightarrow> regex" where
  "seq_of [] = Eps"
| "seq_of [a] = a"
| "seq_of (a # as) = Seq a (seq_of as)"

fun alt_of :: "regex list \<Rightarrow> regex" where
  "alt_of [] = Never"
| "alt_of [a] = a"
| "alt_of (a # as) = Alt a (alt_of as)"

text \<open>
  A group being read: the alternatives that are complete, and the atoms of the
  alternative being read, both latest first.
\<close>

type_synonym frame = "regex list \<times> regex list"

definition close_frame :: "frame \<Rightarrow> regex" where
  "close_frame f = alt_of (rev (seq_of (rev (snd f)) # fst f))"

text \<open>
  The parser of \<open>regexp.Compile\<close> on this fragment, one character at a time, with the
  enclosing groups on a stack. \<open>rep\<close> tells that the last thing read was a repetition
  operator: Go rejects a second one right behind it, and reads a \<open>?\<close> right behind it as
  the non-greedy mark, which does not change what matches. The result is \<open>None\<close> where
  Go reports a syntax error, and also where the pattern leaves the fragment (a class, a
  counted repetition, an anchor, \<open>+\<close>, a flag group, an escaped letter or digit, a byte
  beyond ASCII).
\<close>

fun parse :: "string \<Rightarrow> frame \<Rightarrow> frame list \<Rightarrow> bool \<Rightarrow> regex option" where
  "parse [] f stack rep = (if stack = [] then Some (close_frame f) else None)"
| "parse (c # cs) f stack rep =
     (if c = CHR ''('' then
        (if cs \<noteq> [] \<and> hd cs = CHR ''?'' then None
         else parse cs ([], []) (f # stack) False)
      else if c = CHR '')'' then
        (case stack of
           [] \<Rightarrow> None
         | g # stack' \<Rightarrow> parse cs (fst g, close_frame f # snd g) stack' False)
      else if c = CHR ''|'' then parse cs (seq_of (rev (snd f)) # fst f, []) stack False
      else if c = CHR ''*'' \<or> c = CHR ''?'' then
        (if rep then None
         else (case snd f of
                 [] \<Rightarrow> None
               | a # atoms \<Rightarrow>
                   (if cs \<noteq> [] \<and> hd cs = CHR ''?''
                    then parse (tl cs)
                           (fst f, (if c = CHR ''*'' then Star a else Alt a Eps) # atoms)
                           stack True
                    else parse cs
                           (fst f, (if c = CHR ''*'' then Star a else Alt a Eps) # atoms)
                           stack True)))
      else if c = CHR ''.'' then parse cs (fst f, Dot # snd f) stack False
      else if c = backslash then
        (case cs of
           [] \<Rightarrow> None
         | e # cs' \<Rightarrow>
             (if alnum e \<or> 128 \<le> (of_char e :: nat) then None
              else parse cs' (fst f, Lit e # snd f) stack False))
      else if outside_fragment c then None
      else parse cs (fst f, Lit c # snd f) stack False)"

definition Compile :: "string \<Rightarrow> regex option" where
  "Compile pattern = parse pattern ([], []) [] False"

text \<open>
  Matching, by derivatives. \<open>Dot\<close> is any byte but the line feed (Go compiles with
  Perl flags, where \<open>.\<close> does not match \<open>\n\<close>).
\<close>

fun nullable :: "regex \<Rightarrow> bool" where
  "nullable Never = False"
| "nullable Eps = True"
| "nullable (Lit c) = False"
| "nullable Dot = False"
| "nullable (Seq r s) = (nullable r \<and> nullable s)"
| "nullable (Alt r s) = (nullable r \<or> nullable s)"
| "nullable (Star r) = True"

fun seq :: "regex \<Rightarrow> regex \<Rightarrow> regex" where
  "seq Never s = Never"
| "seq Eps s = s"
| "seq r s = Seq r s"

fun alt :: "regex \<Rightarrow> regex \<Rightarrow> regex" where
  "alt Never s = s"
| "alt r Never = r"
| "alt r s = Alt r s"

fun deriv :: "char \<Rightarrow> regex \<Rightarrow> regex" where
  "deriv c Never = Never"
| "deriv c Eps = Never"
| "deriv c (Lit d) = (if c = d then Eps else Never)"
| "deriv c Dot = (if c = CHR 0x0A then Never else Eps)"
| "deriv c (Seq r s) =
     (if nullable r then alt (seq (deriv c r) s) (deriv c s) else seq (deriv c r) s)"
| "deriv c (Alt r s) = alt (deriv c r) (deriv c s)"
| "deriv c (Star r) = seq (deriv c r) (Star r)"

text \<open>Some prefix of the text matches.\<close>

fun match_prefix :: "regex \<Rightarrow> string \<Rightarrow> bool" where
  "match_prefix r [] = nullable r"
| "match_prefix r (c # cs) = (nullable r \<or> match_prefix (deriv c r) cs)"

text \<open>
  \<open>(*Regexp).Match(b)\<close>: the text contains a match, starting and ending anywhere (a
  pattern is only tied to the ends of the text by \<open>^\<close> and \<open>$\<close>).
\<close>

fun Match :: "regex \<Rightarrow> string \<Rightarrow> bool" where
  "Match r [] = match_prefix r []"
| "Match r (c # cs) = (match_prefix r (c # cs) \<or> Match r cs)"

text \<open>
  What a pattern stands for, as a set of texts: the matcher is checked against it below
  (\<open>Match_lang\<close>).
\<close>

inductive_set star :: "string set \<Rightarrow> string set" for A :: "string set" where
  star_empty: "[] \<in> star A"
| star_more: "u \<in> A \<Longrightarrow> v \<in> star A \<Longrightarrow> u @ v \<in> star A"

fun lang :: "regex \<Rightarrow> string set" where
  "lang Never = {}"
| "lang Eps = {[]}"
| "lang (Lit c) = {[c]}"
| "lang Dot = {[c] | c. c \<noteq> CHR 0x0A}"
| "lang (Seq r s) = {u @ v | u v. u \<in> lang r \<and> v \<in> lang s}"
| "lang (Alt r s) = lang r \<union> lang s"
| "lang (Star r) = star (lang r)"

text \<open>
  The pattern of line 70:
  \<open>".*(\\.|\\/\\/)" + strings.ReplaceAll(hostname, ".", "\\.") + "((#|\\/|\\?).*)?"\<close>.
\<close>

definition filter_pattern :: "string \<Rightarrow> string" where
  "filter_pattern hostname =
     (''.*('' @ [backslash] @ ''.|'' @ [backslash] @ ''/'' @ [backslash] @ ''/)'')
     @ ReplaceAll hostname ''.'' ([backslash] @ ''.'')
     @ (''((#|'' @ [backslash] @ ''/|'' @ [backslash] @ ''?).*)?'')"

text \<open>
  A stand-in for \<open>regexp.MustCompile\<close> with \<open>Match\<close>, for the sites further down: the
  test that the compiled pattern stands for, or nothing where \<open>Compile\<close> gives nothing.
  It is Go's answer for the patterns of the fragment; \<open>StartCrawler\<close> itself does not
  use it but takes the compiler from the world it runs in.
\<close>

definition re2 :: "string \<Rightarrow> (string \<Rightarrow> bool) option" where
  "re2 pattern = (case Compile pattern of None \<Rightarrow> None | Some r \<Rightarrow> Some (Match r))"

section \<open>The dedup map\<close>

text \<open>
  \<open>var sm sync.Map\<close> (line 28) is a package-level variable: one map for the whole
  process, empty when the process starts. \<open>Load\<close> and \<open>Store\<close> are each atomic.
\<close>

type_synonym sync_map = "string \<rightharpoonup> bool"

text \<open>
  A call of \<open>isUnique(url)\<close> in progress: before \<open>sm.Load\<close>; after a \<open>Load\<close> that
  found nothing and before \<open>sm.Store\<close>; and returned.
\<close>

datatype call = Calling string | Absent string | Returned bool

text \<open>
  One atomic step of a call on the shared map: the \<open>Load\<close> with the test of
  \<open>present\<close>, or the \<open>Store\<close> with \<open>return true\<close>.
\<close>

fun isUnique_step :: "sync_map \<Rightarrow> call \<Rightarrow> sync_map \<times> call" where
  "isUnique_step m (Calling url) =
     (case m url of Some _ \<Rightarrow> (m, Returned False) | None \<Rightarrow> (m, Absent url))"
| "isUnique_step m (Absent url) = (m(url \<mapsto> True), Returned True)"
| "isUnique_step m (Returned b) = (m, Returned b)"

text \<open>
  Several goroutines calling \<open>isUnique\<close> at once: the scheduler picks, step by step,
  which call moves next (a number outside the list picks nothing).
\<close>

definition call_step :: "nat \<Rightarrow> sync_map \<times> call list \<Rightarrow> sync_map \<times> call list" where
  "call_step i st =
     (if i < length (snd st)
      then (let (m, c) = isUnique_step (fst st) (snd st ! i) in (m, (snd st)[i := c]))
      else st)"

definition run_calls :: "nat list \<Rightarrow> sync_map \<times> call list \<Rightarrow> sync_map \<times> call list" where
  "run_calls sched st = fold call_step sched st"

section \<open>The collector\<close>

text \<open>
  The crawl itself is done by the colly library, which \<open>StartCrawler\<close> configures and
  whose callbacks it supplies. What lies outside the program is a parameter of the
  model: how Go's \<open>net/url\<close> parses a string, which strings the regular expression
  compiled from a pattern matches (nothing when \<open>regexp.MustCompile\<close> panics), how colly
  resolves a link against the URL of the page it stands on (\<open>Request.AbsoluteURL\<close>, the
  empty string when it cannot), and what an HTTP GET of a URL brings back: the \<open>href\<close>,
  \<open>src\<close> and \<open>action\<close> attributes of the page's \<open>a[href]\<close>, \<open>script[src]\<close> and
  \<open>form[action]\<close> elements in document order, or nothing when the request fails or the
  answer is not HTML.
\<close>

record URL =
  Host :: string
  Hostname :: string

record page =
  a_href :: "string list"
  script_src :: "string list"
  form_action :: "string list"

record env =
  url_Parse :: "string \<Rightarrow> URL option"
  regexp_MustCompile :: "string \<Rightarrow> (string \<Rightarrow> bool) option"
  AbsoluteURL :: "string \<Rightarrow> string \<Rightarrow> string"
  http_get :: "string \<Rightarrow> page option"

text \<open>\<open>extractHostname\<close>, lines 157 to 166.\<close>

definition extractHostname :: "env \<Rightarrow> string \<Rightarrow> error + string" where
  "extractHostname env urlString =
     (case url_Parse env urlString of
        None \<Rightarrow> Inl URLParseError
      | Some u \<Rightarrow> Inr (Hostname u))"

text \<open>
  The settings of the collector that \<open>StartCrawler\<close> makes. \<open>OnRequest\<close> is the header
  callback of lines 94 to 100, present only when \<open>headers != nil\<close>.
\<close>

record Collector =
  UserAgent :: string
  AllowedDomains :: "string list"
  MaxDepth :: int
  Async :: bool
  URLFilters :: "(string \<Rightarrow> bool) list"
  Parallelism :: int
  OnRequest :: "headers option"
  InsecureSkipVerify :: bool

text \<open>
  A request that colly hands to the HTTP client: its URL, its depth, the user agent,
  and the header names and values that the \<open>OnRequest\<close> callback handed to
  \<open>r.Headers.Set\<close>. (Whether the client puts it on the wire, or refuses it for a
  malformed header or a URL without a host, is part of what \<open>http_get\<close> answers.)
\<close>

record Request =
  req_url :: string
  req_depth :: int
  req_agent :: string
  req_set :: headers

text \<open>
  The callbacks run for a fetched page, in colly's order (callback by callback in the
  order of registration, each over its elements in document order): for every
  \<open>a[href]\<close>, \<open>appendResult\<close> and then \<open>e.Request.Visit\<close> (lines 77 to 81); for every
  \<open>script[src]\<close> and every \<open>form[action]\<close>, \<open>appendResult\<close> (lines 84 to 91).
\<close>

datatype op = AppendResult string | Visit string

definition callbacks :: "page \<Rightarrow> op list" where
  "callbacks p =
     concat (map (\<lambda>link. [AppendResult link, Visit link]) (a_href p))
     @ map AppendResult (script_src p)
     @ map AppendResult (form_action p)"

text \<open>
  With \<open>colly.Async(true)\<close> every accepted visit runs in a goroutine of its own:
  \<open>Fetch u d\<close> has not sent its request yet; \<open>Handle u d c ops\<close> has the page of \<open>u\<close>
  and still has to run \<open>ops\<close>, where \<open>c\<close> is the call of \<open>isUnique\<close> that the
  \<open>appendResult\<close> at the head of \<open>ops\<close> is in, if it is in one; \<open>Done\<close> has finished.
\<close>

datatype goroutine =
    Fetch string int
  | Handle string int "call option" "op list"
  | Done

record crawl =
  sm :: sync_map
  results :: "string list"
  visited :: "string set"
  requests :: "Request list"
  goroutines :: "goroutine list"

text \<open>colly's \<open>isMatchingFilter\<close>: one of the filters matches.\<close>

definition isMatchingFilter :: "(string \<Rightarrow> bool) list \<Rightarrow> string \<Rightarrow> bool" where
  "isMatchingFilter fs u = list_ex (\<lambda>r. r u) fs"

text \<open>
  Whether the URL filter that \<open>StartCrawler\<close> sets in subdomain mode (lines 68 to 71)
  for \<open>hostname\<close> lets the URL \<open>u\<close> through; \<open>None\<close> when the pattern does not compile.
\<close>

definition admits :: "string \<Rightarrow> string \<Rightarrow> bool option" where
  "admits hostname u =
     (case re2 (filter_pattern hostname) of
        None \<Rightarrow> None
      | Some re \<Rightarrow> Some (isMatchingFilter [re] u))"

text \<open>colly's \<open>isDomainAllowed\<close> (no domain is disallowed here).\<close>

definition isDomainAllowed :: "Collector \<Rightarrow> string \<Rightarrow> bool" where
  "isDomainAllowed c domain = (AllowedDomains c = [] \<or> domain \<in> set (AllowedDomains c))"

text \<open>
  colly's \<open>scrape\<close> (with its \<open>requestCheck\<close>), which both \<open>c.Visit\<close> and
  \<open>e.Request.Visit\<close> end in: the visit is dropped when the URL is empty, when a positive
  \<open>MaxDepth\<close> is smaller than the depth (\<open>MaxDepth\<close> 0 means no limit), when URL filters
  are set and none matches, or when the URL was visited before; the URL is then marked
  visited, and the visit is dropped when the URL does not parse or its host is not
  allowed. Otherwise a goroutine is started for it.
\<close>

definition scrape :: "env \<Rightarrow> Collector \<Rightarrow> string \<Rightarrow> int \<Rightarrow> crawl \<Rightarrow> crawl" where
  "scrape env c u depth st =
     (if u = [] then st
      else if 0 < MaxDepth c \<and> MaxDepth c < depth then st
      else if URLFilters c \<noteq> [] \<and> \<not> isMatchingFilter (URLFilters c) u then st
      else if u \<in> visited st then st
      else (case url_Parse env u of
              None \<Rightarrow> st\<lparr>visited := insert u (visited st)\<rparr>
            | Some parsedURL \<Rightarrow>
                (if \<not> isDomainAllowed c (Host parsedURL)
                 then st\<lparr>visited := insert u (visited st)\<rparr>
                 else st\<lparr>visited := insert u (visited st),
                         goroutines := goroutines st @ [Fetch u depth]\<rparr>)))"

text \<open>
  One step of goroutine \<open>g\<close>, which is number \<open>i\<close>. A step holds one access to what the
  goroutines share:
  \<^item> \<open>Fetch\<close>: the request is handed to the HTTP client and the answer comes in;
  \<^item> \<open>appendResult\<close> (lines 169 to 178) starts: the link is resolved, and when the
    result is not empty \<open>isUnique\<close> is called and does its \<open>Load\<close>;
  \<^item> a call of \<open>isUnique\<close> that found nothing does its \<open>Store\<close>;
  \<^item> \<open>isUnique\<close> has returned: on \<open>true\<close> the result is appended to \<open>results\<close>;
  \<^item> \<open>e.Request.Visit(link)\<close>: colly resolves the link and calls \<open>scrape\<close> one level
    deeper;
  \<^item> no callback is left: the goroutine ends.

  The \<open>append\<close> of line 175 is not synchronised either; the model lets it happen in
  one step. URLs are taken as the strings they are passed as (colly's set of visited
  URLs holds hashes of these strings). \<open>Parallelism\<close> bounds how many requests are in
  flight at a time; a request is one step here, so no step depends on it.
\<close>

fun goroutine_step :: "env \<Rightarrow> Collector \<Rightarrow> nat \<Rightarrow> goroutine \<Rightarrow> crawl \<Rightarrow> crawl" where
  "goroutine_step env c i (Fetch u d) st =
     st\<lparr>requests := requests st
           @ [\<lparr>req_url = u, req_depth = d, req_agent = UserAgent c,
               req_set = (case OnRequest c of None \<Rightarrow> Map.empty | Some h \<Rightarrow> h)\<rparr>],
        goroutines := (goroutines st)
           [i := (case http_get env u of
                    None \<Rightarrow> Done
                  | Some p \<Rightarrow> Handle u d None (callbacks p))]\<rparr>"
| "goroutine_step env c i (Handle u d None []) st =
     st\<lparr>goroutines := (goroutines st)[i := Done]\<rparr>"
| "goroutine_step env c i (Handle u d None (AppendResult link # ops)) st =
     (if AbsoluteURL env u link \<noteq> []
      then (let (m, call) = isUnique_step (sm st) (Calling (AbsoluteURL env u link))
            in st\<lparr>sm := m,
                  goroutines := (goroutines st)
                     [i := Handle u d (Some call) (AppendResult link # ops)]\<rparr>)
      else st\<lparr>goroutines := (goroutines st)[i := Handle u d None ops]\<rparr>)"
| "goroutine_step env c i (Handle u d None (Visit link # ops)) st =
     (scrape env c (AbsoluteURL env u link) (d + 1) st)
       \<lparr>goroutines :=
          (goroutines (scrape env c (AbsoluteURL env u link) (d + 1) st))
            [i := Handle u d None ops]\<rparr>"
| "goroutine_step env c i (Handle u d (Some (Returned b)) []) st =
     st\<lparr>goroutines := (goroutines st)[i := Handle u d None []]\<rparr>"
| "goroutine_step env c i (Handle u d (Some (Returned b)) (AppendResult link # ops)) st =
     st\<lparr>results := (if b then results st @ [AbsoluteURL env u link] else results st),
        goroutines := (goroutines st)[i := Handle u d None ops]\<rparr>"
| "goroutine_step env c i (Handle u d (Some (Returned b)) (Visit link # ops)) st =
     st\<lparr>goroutines := (goroutines st)[i := Handle u d None (Visit link # ops)]\<rparr>"
| "goroutine_step env c i (Handle u d (Some (Calling r)) ops) st =
     (let (m, call) = isUnique_step (sm st) (Calling r)
      in st\<lparr>sm := m, goroutines := (goroutines st)[i := Handle u d (Some call) ops]\<rparr>)"
| "goroutine_step env c i (Handle u d (Some (Absent r)) ops) st =
     (let (m, call) = isUnique_step (sm st) (Absent r)
      in st\<lparr>sm := m, goroutines := (goroutines st)[i := Handle u d (Some call) ops]\<rparr>)"
| "goroutine_step env c i Done st = st"

text \<open>The scheduler lets goroutine \<open>i\<close> do a step (a number outside the list: nobody).\<close>

definition step :: "env \<Rightarrow> Collector \<Rightarrow> nat \<Rightarrow> crawl \<Rightarrow> crawl" where
  "step env c i st =
     (if i < length (goroutines st) then goroutine_step env c i (goroutines st ! i) st
      else st)"

text \<open>\<open>c.Wait()\<close> returns once every goroutine has finished.\<close>

definition finished :: "crawl \<Rightarrow> bool" where
  "finished st = list_all (\<lambda>g. g = Done) (goroutines st)"

section \<open>StartCrawler\<close>

text \<open>
  How a call of \<open>StartCrawler\<close> ends: with a panic; with the results it returns, and
  the state the crawl left behind; or not yet, the schedule having ended while
  \<open>c.Wait()\<close> was still waiting.
\<close>

datatype outcome = Panics error | Returns "string list" crawl | Waiting crawl

text \<open>
  The collector of lines 52 to 65, with the limit of line 74, the header callback of
  lines 94 to 100 and the transport setting of lines 103 to 105.
\<close>

definition collector :: "string \<Rightarrow> int \<Rightarrow> int \<Rightarrow> bool \<Rightarrow> headers option \<Rightarrow> Collector" where
  "collector hostname threads depth insecure hdrs =
     \<lparr>UserAgent = ''Mozilla/5.0 (X11; Linux x86_64; rv:78.0) Gecko/20100101 Firefox/78.0'',
      AllowedDomains = [hostname],
      MaxDepth = depth,
      Async = True,
      URLFilters = [],
      Parallelism = threads,
      OnRequest = hdrs,
      InsecureSkipVerify = insecure\<rparr>"

text \<open>Lines 107 to 113: \<open>c.Visit(url)\<close> at depth 1, \<open>c.Wait()\<close>, \<open>return results\<close>.\<close>

definition crawl_from :: "env \<Rightarrow> Collector \<Rightarrow> nat list \<Rightarrow> sync_map \<Rightarrow> string \<Rightarrow> outcome" where
  "crawl_from env c sched m url =
     (let st = fold (step env c) sched
                 (scrape env c url 1
                    \<lparr>sm = m, results = [], visited = {}, requests = [], goroutines = []\<rparr>)
      in if finished st then Returns (results st) st else Waiting st)"

text \<open>
  \<open>StartCrawler\<close>, lines 30 to 114, run from the dedup map \<open>m\<close> under the schedule
  \<open>sched\<close>. In \<open>headers, _ := parseHeaders(rawHeaders)\<close> the error is dropped, and
  \<open>headers\<close> is then \<open>nil\<close>. In subdomain mode the allowed domains are cleared and the
  URL filter is set.
\<close>

definition StartCrawler ::
  "env \<Rightarrow> nat list \<Rightarrow> sync_map \<Rightarrow> string \<Rightarrow> int \<Rightarrow> int \<Rightarrow> bool \<Rightarrow> bool \<Rightarrow> string
     \<Rightarrow> outcome" where
  "StartCrawler env sched m url threads depth subsInScope insecure rawHeaders =
     (case parseHeaders rawHeaders of
        Inl IndexOutOfRange \<Rightarrow> Panics IndexOutOfRange
      | parsed \<Rightarrow>
          (case extractHostname env (default_scheme url) of
             Inl err \<Rightarrow>
               Returns []
                 \<lparr>sm = m, results = [], visited = {}, requests = [], goroutines = []\<rparr>
           | Inr hostname \<Rightarrow>
               (if subsInScope then
                  (case regexp_MustCompile env (filter_pattern hostname) of
                     None \<Rightarrow> Panics RegexpError
                   | Some re \<Rightarrow>
                       crawl_from env
                         ((collector hostname threads depth insecure
                             (case parsed of Inl _ \<Rightarrow> None | Inr h \<Rightarrow> Some h))
                            \<lparr>AllowedDomains := [], URLFilters := [re]\<rparr>)
                         sched m (default_scheme url))
                else
                  crawl_from env
                    (collector hostname threads depth insecure
                       (case parsed of Inl _ \<Rightarrow> None | Inr h \<Rightarrow> Some h))
                    sched m (default_scheme url))))"

text \<open>What the caller of \<open>StartCrawler\<close> gets back, if the call has returned.\<close>

fun returned :: "outcome \<Rightarrow> string list option" where
  "returned (Returns rs st) = Some rs"
| "returned (Panics e) = None"
| "returned (Waiting st) = None"

text \<open>The requests that were handed to the HTTP client during the call.\<close>

fun sent :: "outcome \<Rightarrow> Request list" where
  "sent (Returns rs st) = requests st"
| "sent (Panics e) = []"
| "sent (Waiting st) = requests st"

text \<open>The results recorded during the call, returned or not yet.\<close>

fun recorded :: "outcome \<Rightarrow> string list" where
  "recorded (Returns rs st) = rs"
| "recorded (Panics e) = []"
| "recorded (Waiting st) = results st"

text \<open>
  The links that stand on the page of \<open>u\<close>: what its \<open>href\<close>, \<open>src\<close> and \<open>action\<close>
  attributes resolve to.
\<close>

definition page_links :: "env \<Rightarrow> string \<Rightarrow> string set" where
  "page_links env u =
     (case http_get env u of
        None \<Rightarrow> {}
      | Some p \<Rightarrow> AbsoluteURL env u ` set (a_href p @ script_src p @ form_action p))"

section \<open>The main loop\<close>

text \<open>
  Lines 233 to 237: every line of standard input is crawled in turn, and its results
  are printed. Nothing resets \<open>sm\<close> in between, so each call of \<open>StartCrawler\<close> starts
  from the map the call before left. A \<open>seed\<close> is an input line with the world and the
  schedule its crawl runs under; the value is the list of results printed for each
  line, or \<open>None\<close> when a crawl panics or does not return.
\<close>

type_synonym seed = "env \<times> nat list \<times> string"

fun crawl_lines ::
  "sync_map \<Rightarrow> seed list \<Rightarrow> int \<Rightarrow> int \<Rightarrow> bool \<Rightarrow> bool \<Rightarrow> string
     \<Rightarrow> string list list option" where
  "crawl_lines m [] threads depth subsInScope insecure rawHeaders = Some []"
| "crawl_lines m ((env, sched, url) # rest) threads depth subsInScope insecure rawHeaders =
     (case StartCrawler env sched m url threads depth subsInScope insecure rawHeaders of
        Returns rs st \<Rightarrow>
          (case crawl_lines (sm st) rest threads depth subsInScope insecure rawHeaders of
             None \<Rightarrow> None
           | Some printed \<Rightarrow> Some (rs # printed))
      | Panics e \<Rightarrow> None
      | Waiting st \<Rightarrow> None)"

section \<open>CStartCrawler\<close>

text \<open>
  A cell of the C array: a null pointer, a pointer to the C string that \<open>C.CString\<close>
  made of a Go string, or whatever else the memory held.
\<close>

datatype c_ptr = NULL | CString string | Stale nat

text \<open>
  Lines 197 to 211. \<open>C.malloc\<close> does not clear the memory it hands out: \<open>fresh i\<close> is
  what cell \<open>i\<close> of the new block holds before the program writes to it. The array type
  that the block is cast to has \<open>1<<30 - 1\<close> elements, so an index from there on panics.
\<close>

definition marshal :: "(nat \<Rightarrow> c_ptr) \<Rightarrow> string list \<Rightarrow> error + c_ptr list" where
  "marshal fresh res =
     (let size = length res + 1;
          cArray = map fresh [0..<size]
      in if length res \<le> 2 ^ 30 - 1
         then Inr (fold (\<lambda>(idx, link) a. a[idx := CString link]) (enumerate 0 res) cArray)
         else Inl IndexOutOfRange)"

text \<open>The array that \<open>CStartCrawler\<close> returns, when it returns.\<close>

definition CStartCrawler ::
  "(nat \<Rightarrow> c_ptr) \<Rightarrow> env \<Rightarrow> nat list \<Rightarrow> sync_map \<Rightarrow> string \<Rightarrow> int \<Rightarrow> int \<Rightarrow> bool \<Rightarrow> bool
     \<Rightarrow> string \<Rightarrow> c_ptr list option" where
  "CStartCrawler fresh env sched m url threads depth subsInScope insecure rawHeaders =
     (case returned
             (StartCrawler env sched m url threads depth subsInScope insecure rawHeaders) of
        None \<Rightarrow> None
      | Some res \<Rightarrow>
          (case marshal fresh res of Inl e \<Rightarrow> None | Inr cArray \<Rightarrow> Some cArray))"

section \<open>Sites and schedules to run the model on\<close>

text \<open>
  A small URL parser, standing for \<open>url.Parse\<close> on URLs of the shape
  \<open>scheme://[user@]host[:port][/path]\<close>: the authority is what stands between \<open>//\<close>
  and the next \<open>/\<close>, \<open>Host\<close> is the authority behind its user part, and \<open>Hostname\<close>
  is \<open>Host\<close> without the port. A string without \<open>//\<close> is not of this shape and does
  not parse here. Patterns are compiled by \<open>re2\<close>, and links are absolute already.
\<close>

definition before :: "string \<Rightarrow> string \<Rightarrow> string" where
  "before s sep = (case Cut s sep of None \<Rightarrow> s | Some (b, a) \<Rightarrow> b)"

definition behind :: "string \<Rightarrow> string \<Rightarrow> string" where
  "behind s sep = (case Cut s sep of None \<Rightarrow> s | Some (b, a) \<Rightarrow> a)"

definition parse_simple :: "string \<Rightarrow> URL option" where
  "parse_simple u =
     (case Cut u ''//'' of
        None \<Rightarrow> None
      | Some (scheme, rest) \<Rightarrow>
          Some \<lparr>Host = behind (before rest ''/'') ''@'',
                Hostname = before (behind (before rest ''/'') ''@'') '':''\<rparr>)"

definition link_itself :: "string \<Rightarrow> string \<Rightarrow> string" where
  "link_itself base link = link"

text \<open>A site of one page, which loads one script.\<close>

definition one_page :: "string \<Rightarrow> page option" where
  "one_page u =
     (if u = ''http://a/''
      then Some \<lparr>a_href = [], script_src = [''http://a/x.js''], form_action = []\<rparr>
      else None)"

definition site1 :: env where
  "site1 =
     \<lparr>url_Parse = parse_simple, regexp_MustCompile = re2, AbsoluteURL = link_itself,
      http_get = one_page\<rparr>"

text \<open>A site whose front page links to a second page, which loads a script.\<close>

definition two_pages :: "string \<Rightarrow> page option" where
  "two_pages u =
     (if u = ''http://a/''
      then Some \<lparr>a_href = [''http://a/1''], script_src = [], form_action = []\<rparr>
      else if u = ''http://a/1''
      then Some \<lparr>a_href = [], script_src = [''http://a/deep.js''], form_action = []\<rparr>
      else None)"

definition site2 :: env where
  "site2 =
     \<lparr>url_Parse = parse_simple, regexp_MustCompile = re2, AbsoluteURL = link_itself,
      http_get = two_pages\<rparr>"

text \<open>A site whose front page links to two pages, which load the same script.\<close>

definition three_pages :: "string \<Rightarrow> page option" where
  "three_pages u =
     (if u = ''http://a/''
      then Some \<lparr>a_href = [''http://a/1'', ''http://a/2''], script_src = [], form_action = []\<rparr>
      else if u = ''http://a/1'' \<or> u = ''http://a/2''
      then Some \<lparr>a_href = [], script_src = [''http://a/x.js''], form_action = []\<rparr>
      else None)"

definition site3 :: env where
  "site3 =
     \<lparr>url_Parse = parse_simple, regexp_MustCompile = re2, AbsoluteURL = link_itself,
      http_get = three_pages\<rparr>"

text \<open>A world in which no string parses as a URL.\<close>

definition no_parse :: "string \<Rightarrow> URL option" where
  "no_parse u = None"

definition site0 :: env where
  "site0 =
     \<lparr>url_Parse = no_parse, regexp_MustCompile = re2, AbsoluteURL = link_itself,
      http_get = one_page\<rparr>"

text \<open>A site whose front page links to a host that only starts like its own.\<close>

definition evil_link :: "string \<Rightarrow> page option" where
  "evil_link u =
     (if u = ''http://example.com''
      then Some \<lparr>a_href = [''http://example.com.evil.com/''], script_src = [],
                 form_action = []\<rparr>
      else if u = ''http://example.com.evil.com/''
      then Some \<lparr>a_href = [], script_src = [], form_action = []\<rparr>
      else None)"

definition site4 :: env where
  "site4 =
     \<lparr>url_Parse = parse_simple, regexp_MustCompile = re2, AbsoluteURL = link_itself,
      http_get = evil_link\<rparr>"

definition stale_memory :: "nat \<Rightarrow> c_ptr" where
  "stale_memory i = Stale 7"

section \<open>What holds during a crawl\<close>

text \<open>
  With \<open>MaxDepth\<close> 1: every goroutine is the one for the seed, at depth 1, and the
  links it still has to record stand on the seed's page; so do the results, and every
  request is the one for the seed.
\<close>

fun at_seed :: "env \<Rightarrow> string \<Rightarrow> goroutine \<Rightarrow> bool" where
  "at_seed env seed (Fetch u d) = (u = seed \<and> d = 1)"
| "at_seed env seed (Handle u d c ops) =
     (u = seed \<and> d = 1
      \<and> (\<forall>link. AppendResult link \<in> set ops \<longrightarrow> AbsoluteURL env seed link \<in> page_links env seed))"
| "at_seed env seed Done = True"

definition seed_only :: "env \<Rightarrow> string \<Rightarrow> crawl \<Rightarrow> bool" where
  "seed_only env seed st =
     ((\<forall>g \<in> set (goroutines st). at_seed env seed g)
      \<and> (\<forall>r \<in> set (requests st). req_url r = seed \<and> req_depth r = 1)
      \<and> set (results st) \<subseteq> page_links env seed)"

text \<open>
  For the dedup map, with \<open>m0\<close> the map the crawl started from and \<open>m\<close> the map now:
  an \<open>appendResult\<close> that is inside its call of \<open>isUnique\<close> asks about the URL it
  resolved; once the \<open>Load\<close> has found nothing, that URL was not in \<open>m0\<close>; once the
  call has returned \<open>true\<close>, it is in \<open>m\<close>.
\<close>

fun pending_ok :: "env \<Rightarrow> sync_map \<Rightarrow> sync_map \<Rightarrow> goroutine \<Rightarrow> bool" where
  "pending_ok env m0 m (Handle u d (Some (Calling r)) (AppendResult link # ops)) =
     (r = AbsoluteURL env u link \<and> r \<noteq> [])"
| "pending_ok env m0 m (Handle u d (Some (Absent r)) (AppendResult link # ops)) =
     (r = AbsoluteURL env u link \<and> r \<noteq> [] \<and> m0 r = None)"
| "pending_ok env m0 m (Handle u d (Some (Returned True)) (AppendResult link # ops)) =
     (AbsoluteURL env u link \<noteq> [] \<and> m0 (AbsoluteURL env u link) = None
      \<and> m (AbsoluteURL env u link) \<noteq> None)"
| "pending_ok env m0 m g = True"

text \<open>
  The map only grows; and every result was not in the map when the crawl started, is
  in the map now, and is not the empty string.
\<close>

definition dedup_inv :: "env \<Rightarrow> sync_map \<Rightarrow> crawl \<Rightarrow> bool" where
  "dedup_inv env m0 st =
     ((\<forall>x. m0 x \<noteq> None \<longrightarrow> sm st x \<noteq> None)
      \<and> (\<forall>x \<in> set (results st). m0 x = None \<and> sm st x \<noteq> None \<and> x \<noteq> [])
      \<and> (\<forall>g \<in> set (goroutines st). pending_ok env m0 (sm st) g))"

section \<open>Evaluating the model\<close>

lemmas crawl_defs =
  StartCrawler_def parseHeaders_def extractHostname_def default_scheme_def HasPrefix_def
  crawl_from_def collector_def scrape_def isDomainAllowed_def isMatchingFilter_def step_def
  finished_def callbacks_def link_itself_def parse_simple_def before_def behind_def re2_def

lemmas trim_defs =
  TrimSpace_def TrimLeft.simps TrimRight.simps leading_space_def trailing_space_def
  space_runes_def HasPrefix_def

lemma filter_pattern_example:
  "filter_pattern ''example.com'' =
     ''.*('' @ [backslash] @ ''.|'' @ [backslash] @ ''/'' @ [backslash] @ ''/)example''
     @ [backslash] @ ''.com((#|'' @ [backslash] @ ''/|'' @ [backslash] @ ''?).*)?''"
  by (simp add: filter_pattern_def ReplaceAll_def Split.simps HasPrefix_def)

lemma Compile_example:
  "Compile (filter_pattern ''example.com'') =
     Some (Seq (Star Dot)
       (Seq (Alt (Lit CHR ''.'') (Seq (Lit CHR ''/'') (Lit CHR ''/'')))
       (Seq (Lit CHR ''e'') (Seq (Lit CHR ''x'') (Seq (Lit CHR ''a'') (Seq (Lit CHR ''m'')
       (Seq (Lit CHR ''p'') (Seq (Lit CHR ''l'') (Seq (Lit CHR ''e'') (Seq (Lit CHR ''.'')
       (Seq (Lit CHR ''c'') (Seq (Lit CHR ''o'') (Seq (Lit CHR ''m'')
       (Alt (Seq (Alt (Lit CHR ''#'') (Alt (Lit CHR ''/'') (Lit CHR ''?''))) (Star Dot))
          Eps))))))))))))))"
  by (simp add: filter_pattern_example Compile_def backslash_def alnum_def
        outside_fragment_def close_frame_def)

section \<open>The matcher decides the language of the pattern\<close>

lemma nullable_lang: "nullable r \<longleftrightarrow> [] \<in> lang r"
  by (induction r) (auto intro: star_empty)

lemma lang_seq: "lang (seq r s) = lang (Seq r s)"
  by (cases r) auto

lemma lang_alt: "lang (alt r s) = lang r \<union> lang s"
  by (induction r s rule: alt.induct) auto

lemma star_Cons:
  "c # w \<in> star A \<longleftrightarrow> (\<exists>u v. w = u @ v \<and> c # u \<in> A \<and> v \<in> star A)"
proof
  have "x \<in> star A \<Longrightarrow> x = c # w \<Longrightarrow> \<exists>u v. w = u @ v \<and> c # u \<in> A \<and> v \<in> star A" for x
  proof (induction arbitrary: w rule: star.induct)
    case star_empty
    then show ?case by simp
  next
    case (star_more u v)
    show ?case
    proof (cases u)
      case Nil
      with star_more show ?thesis by simp
    next
      case (Cons a u')
      with star_more.prems have "a = c" and "w = u' @ v" by simp_all
      with Cons star_more.hyps show ?thesis by blast
    qed
  qed
  then show "c # w \<in> star A \<Longrightarrow> \<exists>u v. w = u @ v \<and> c # u \<in> A \<and> v \<in> star A"
    by blast
next
  assume "\<exists>u v. w = u @ v \<and> c # u \<in> A \<and> v \<in> star A"
  then obtain u v where "w = u @ v" "c # u \<in> A" "v \<in> star A" by blast
  then show "c # w \<in> star A" using star_more [of "c # u" A v] by simp
qed

lemma lang_deriv: "w \<in> lang (deriv c r) \<longleftrightarrow> c # w \<in> lang r"
proof (induction r arbitrary: w)
  case (Seq r s)
  have "c # w \<in> lang (Seq r s) \<longleftrightarrow>
          ([] \<in> lang r \<and> c # w \<in> lang s)
          \<or> (\<exists>u v. w = u @ v \<and> c # u \<in> lang r \<and> v \<in> lang s)"
    by (auto simp: Cons_eq_append_conv)
  with Seq show ?case
    by (auto simp: lang_alt lang_seq nullable_lang)
next
  case (Star r)
  then show ?case by (auto simp: lang_seq star_Cons)
qed (auto simp: lang_alt)

lemma match_prefix_lang: "match_prefix r s \<longleftrightarrow> (\<exists>u v. s = u @ v \<and> u \<in> lang r)"
proof (induction s arbitrary: r)
  case Nil
  show ?case by (simp add: nullable_lang)
next
  case (Cons c cs)
  have "(\<exists>u v. c # cs = u @ v \<and> u \<in> lang r) \<longleftrightarrow>
          [] \<in> lang r \<or> (\<exists>u v. cs = u @ v \<and> c # u \<in> lang r)"
    by (auto simp: Cons_eq_append_conv)
  with Cons show ?case by (simp add: nullable_lang lang_deriv)
qed

text \<open>\<open>Match\<close> holds exactly when some stretch of the text is in the language.\<close>

lemma Match_lang: "Match r s \<longleftrightarrow> (\<exists>p u v. s = p @ u @ v \<and> u \<in> lang r)"
proof (induction s)
  case Nil
  show ?case by (simp add: nullable_lang)
next
  case (Cons c cs)
  have "(\<exists>p u v. c # cs = p @ u @ v \<and> u \<in> lang r) \<longleftrightarrow>
          (\<exists>u v. c # cs = u @ v \<and> u \<in> lang r) \<or> (\<exists>p u v. cs = p @ u @ v \<and> u \<in> lang r)"
    (is "?l \<longleftrightarrow> ?a \<or> ?b")
  proof
    assume ?l
    then obtain p u v where eq: "c # cs = p @ u @ v" and u: "u \<in> lang r" by blast
    show "?a \<or> ?b"
    proof (cases p)
      case Nil
      with eq u show ?thesis by auto
    next
      case (Cons a p')
      with eq have "cs = p' @ u @ v" by simp
      with u show ?thesis by blast
    qed
  next
    assume "?a \<or> ?b"
    then show ?l
    proof
      assume ?a
      then obtain u v where "c # cs = [] @ u @ v" "u \<in> lang r" by auto
      then show ?l by blast
    next
      assume ?b
      then obtain p u v where "cs = p @ u @ v" "u \<in> lang r" by blast
      then have "c # cs = (c # p) @ u @ v" by simp
      with \<open>u \<in> lang r\<close> show ?l by blast
    qed
  qed
  with Cons show ?case by (simp add: match_prefix_lang)
qed

section \<open>Header parsing never panics\<close>

lemma SplitN2_two: "Contains s sep \<Longrightarrow> \<exists>a b. SplitN2 s sep = [a, b]"
  by (auto simp: Contains_def SplitN2_def)

lemma add_headers_returns: "\<exists>h. add_headers hs m = Inr h"
proof (induction hs arbitrary: m)
  case Nil
  show ?case by simp
next
  case (Cons header rest)
  show ?case
  proof (cases "Contains header '': ''")
    case True
    then obtain a b where "SplitN2 header '': '' = [a, b]"
      using SplitN2_two by blast
    with True Cons.IH show ?thesis by simp
  next
    case False
    show ?thesis
    proof (cases "Contains header '':''")
      case True
      then obtain a b where "SplitN2 header '':'' = [a, b]"
        using SplitN2_two by blast
      with True False Cons.IH show ?thesis by simp
    next
      case no: False
      with False Cons.IH show ?thesis by simp
    qed
  qed
qed

lemma parseHeaders_no_panic: "parseHeaders rawHeaders \<noteq> Inl IndexOutOfRange"
  using add_headers_returns [of "Split rawHeaders '';;''" Map.empty]
  by (auto simp: parseHeaders_def)

section \<open>The C array\<close>

lemma fold_store:
  "n + length xs \<le> length a \<Longrightarrow>
   fold (\<lambda>(idx, link) a. a[idx := f link]) (enumerate n xs) a
     = take n a @ map f xs @ drop (n + length xs) a"
proof (induction xs arbitrary: n a)
  case Nil
  then show ?case by simp
next
  case (Cons x xs)
  from Cons.prems have n: "n < length a" by simp
  have "fold (\<lambda>(idx, link) a. a[idx := f link]) (enumerate n (x # xs)) a
          = fold (\<lambda>(idx, link) a. a[idx := f link]) (enumerate (Suc n) xs) (a[n := f x])"
    by simp
  also have "\<dots> = take (Suc n) (a[n := f x]) @ map f xs
                    @ drop (Suc n + length xs) (a[n := f x])"
    using Cons.prems by (intro Cons.IH) simp
  also have "take (Suc n) (a[n := f x]) = take n a @ [f x]"
    using n by (simp add: take_Suc_conv_app_nth)
  also have "drop (Suc n + length xs) (a[n := f x]) = drop (n + length (x # xs)) a"
    by simp
  finally show ?case by simp
qed

text \<open>
  The array holds the C strings of the results in order, and behind them one cell that
  the program never writes: it keeps what \<open>malloc\<close> left there.
\<close>

lemma marshal_array:
  "length res \<le> 2 ^ 30 - 1 \<Longrightarrow>
   marshal fresh res = Inr (map CString res @ [fresh (length res)])"
proof -
  assume le: "length res \<le> 2 ^ 30 - 1"
  have "fold (\<lambda>(idx, link) a. a[idx := CString link]) (enumerate 0 res)
            (map fresh [0..<length res + 1])
          = take 0 (map fresh [0..<length res + 1]) @ map CString res
            @ drop (0 + length res) (map fresh [0..<length res + 1])"
    by (rule fold_store) simp
  moreover have "drop (0 + length res) (map fresh [0..<length res + 1]) = [fresh (length res)]"
    by (simp add: drop_map)
  ultimately show ?thesis using le by (simp add: marshal_def)
qed

section \<open>Steps of a crawl\<close>

lemma fold_step_invariant:
  assumes "\<And>i st. P st \<Longrightarrow> P (step env c i st)" and "P st"
  shows "P (fold (step env c) sched st)"
  using assms(2) by (induction sched arbitrary: st) (auto intro: assms(1))

lemma set_update_cases: "x \<in> set (xs[i := y]) \<Longrightarrow> x = y \<or> x \<in> set xs"
  using set_update_subset_insert [of xs i y] by auto

lemma isDomainAllowed_OnRequest [simp]:
  "isDomainAllowed (c\<lparr>OnRequest := h\<rparr>) = isDomainAllowed c"
  by (intro ext) (simp add: isDomainAllowed_def)

lemma scrape_OnRequest [simp]:
  "scrape env (c\<lparr>OnRequest := h\<rparr>) = scrape env c"
  by (intro ext) (simp add: scrape_def split: option.splits)

lemma goroutine_step_OnRequest:
  "goroutine_step env (c\<lparr>OnRequest := None\<rparr>) i g st
     = goroutine_step env (c\<lparr>OnRequest := Some Map.empty\<rparr>) i g st"
  by (cases "(env, c, i, g, st)" rule: goroutine_step.cases) simp_all

lemma step_OnRequest:
  "step env (c\<lparr>OnRequest := None\<rparr>) = step env (c\<lparr>OnRequest := Some Map.empty\<rparr>)"
  by (intro ext) (simp add: step_def goroutine_step_OnRequest)

lemma crawl_from_OnRequest:
  "crawl_from env (c\<lparr>OnRequest := None\<rparr>) sched m url
     = crawl_from env (c\<lparr>OnRequest := Some Map.empty\<rparr>) sched m url"
  by (simp add: crawl_from_def step_OnRequest)

lemma collector_OnRequest:
  "collector hostname threads depth insecure h
     = (collector hostname threads depth insecure None)\<lparr>OnRequest := h\<rparr>"
  by (simp add: collector_def)

lemma requests_scrape [simp]: "requests (scrape env c u d st) = requests st"
  by (simp add: scrape_def split: option.splits)

lemma requests_goroutine_step:
  "r \<in> set (requests (goroutine_step env c i g st)) \<Longrightarrow>
   r \<in> set (requests st) \<or>
   (\<exists>u d. g = Fetch u d \<and> r = \<lparr>req_url = u, req_depth = d, req_agent = UserAgent c,
               req_set = (case OnRequest c of None \<Rightarrow> Map.empty | Some h \<Rightarrow> h)\<rparr>)"
  by (cases "(env, c, i, g, st)" rule: goroutine_step.cases)
     (auto split: prod.splits if_splits)


lemma requests_step:
  "r \<in> set (requests (step env c i st)) \<Longrightarrow>
   r \<in> set (requests st) \<or>
   (req_agent r = UserAgent c \<and>
    req_set r = (case OnRequest c of None \<Rightarrow> Map.empty | Some h \<Rightarrow> h))"
  using requests_goroutine_step [of r env c i "goroutines st ! i" st]
  by (auto simp: step_def split: if_splits)

lemma requests_fold_step:
  "\<forall>r \<in> set (requests (fold (step env c) sched st)).
     r \<in> set (requests st) \<or>
     (req_agent r = UserAgent c \<and>
      req_set r = (case OnRequest c of None \<Rightarrow> Map.empty | Some h \<Rightarrow> h))"
proof (induction sched arbitrary: st)
  case Nil
  show ?case by simp
next
  case (Cons i sched)
  show ?case
  proof
    fix r
    assume "r \<in> set (requests (fold (step env c) (i # sched) st))"
    then have "r \<in> set (requests (fold (step env c) sched (step env c i st)))" by simp
    with Cons.IH [of "step env c i st"]
    have "r \<in> set (requests (step env c i st)) \<or>
          (req_agent r = UserAgent c \<and>
           req_set r = (case OnRequest c of None \<Rightarrow> Map.empty | Some h \<Rightarrow> h))"
      by blast
    then show "r \<in> set (requests st) \<or>
          (req_agent r = UserAgent c \<and>
           req_set r = (case OnRequest c of None \<Rightarrow> Map.empty | Some h \<Rightarrow> h))"
      using requests_step [of r env c i st] by blast
  qed
qed

lemma sent_crawl_from:
  assumes "r \<in> set (sent (crawl_from env c sched m url))"
  shows "req_set r = (case OnRequest c of None \<Rightarrow> Map.empty | Some h \<Rightarrow> h)"
proof -
  let ?st0 = "scrape env c url 1
                \<lparr>sm = m, results = [], visited = {}, requests = [], goroutines = []\<rparr>"
  from assms have "r \<in> set (requests (fold (step env c) sched ?st0))"
    by (simp add: crawl_from_def Let_def split: if_splits)
  with requests_fold_step [of env c sched ?st0] show ?thesis by auto
qed

lemma crawl_from_nil_headers:
  assumes "OnRequest c = None"
  shows "crawl_from env c sched m url
           = crawl_from env (c\<lparr>OnRequest := Some Map.empty\<rparr>) sched m url"
proof -
  from assms have "c = c\<lparr>OnRequest := None\<rparr>" by simp
  then have "crawl_from env c sched m url = crawl_from env (c\<lparr>OnRequest := None\<rparr>) sched m url"
    by simp
  then show ?thesis by (simp only: crawl_from_OnRequest)
qed

lemma StartCrawler_cases:
  obtains (panic) e where
      "StartCrawler env sched m url threads depth subsInScope insecure rawHeaders = Panics e"
  | (early)
      "StartCrawler env sched m url threads depth subsInScope insecure rawHeaders
         = Returns [] \<lparr>sm = m, results = [], visited = {}, requests = [], goroutines = []\<rparr>"
  | (crawl) c where
      "StartCrawler env sched m url threads depth subsInScope insecure rawHeaders
         = crawl_from env c sched m (default_scheme url)"
      "MaxDepth c = depth"
proof (cases "extractHostname env (default_scheme url)")
  case (Inl err)
  then have "StartCrawler env sched m url threads depth subsInScope insecure rawHeaders
         = Returns [] \<lparr>sm = m, results = [], visited = {}, requests = [], goroutines = []\<rparr>"
    using parseHeaders_no_panic [of rawHeaders]
    by (simp add: StartCrawler_def split: sum.splits error.splits)
  then show ?thesis by (rule early)
next
  case (Inr hostname)
  let ?h = "case parseHeaders rawHeaders of Inl _ \<Rightarrow> None | Inr h \<Rightarrow> Some h"
  show ?thesis
  proof (cases subsInScope)
    case False
    with Inr have "StartCrawler env sched m url threads depth subsInScope insecure rawHeaders
         = crawl_from env (collector hostname threads depth insecure ?h) sched m
             (default_scheme url)"
      using parseHeaders_no_panic [of rawHeaders]
      by (simp add: StartCrawler_def split: sum.splits error.splits)
    then show ?thesis by (rule crawl) (simp add: collector_def)
  next
    case True
    show ?thesis
    proof (cases "regexp_MustCompile env (filter_pattern hostname)")
      case None
      with Inr True
      have "StartCrawler env sched m url threads depth subsInScope insecure rawHeaders
              = Panics RegexpError"
        using parseHeaders_no_panic [of rawHeaders]
        by (simp add: StartCrawler_def split: sum.splits error.splits)
      then show ?thesis by (rule panic)
    next
      case (Some re)
      with Inr True
      have "StartCrawler env sched m url threads depth subsInScope insecure rawHeaders
         = crawl_from env ((collector hostname threads depth insecure ?h)
                             \<lparr>AllowedDomains := [], URLFilters := [re]\<rparr>) sched m
             (default_scheme url)"
        using parseHeaders_no_panic [of rawHeaders]
        by (simp add: StartCrawler_def split: sum.splits error.splits)
      then show ?thesis by (rule crawl) (simp add: collector_def)
    qed
  qed
qed

section \<open>A crawl with depth 1\<close>

lemma scrape_too_deep: "MaxDepth c = 1 \<Longrightarrow> 1 \<le> d \<Longrightarrow> scrape env c u (d + 1) st = st"
  by (simp add: scrape_def)

text \<open>
  With \<open>MaxDepth\<close> 0 (or below) no visit is refused for its depth: at every depth it
  is treated as under a limit that the depth does not exceed.
\<close>

lemma scrape_no_depth_limit:
  assumes "MaxDepth c \<le> 0" and "d \<le> k"
  shows "scrape env c u d st = scrape env (c\<lparr>MaxDepth := k\<rparr>) u d st"
  using assms by (simp add: scrape_def isDomainAllowed_def split: option.splits)

lemma callbacks_links:
  "AppendResult link \<in> set (callbacks p) \<Longrightarrow>
   link \<in> set (a_href p @ script_src p @ form_action p)"
  by (auto simp: callbacks_def)

lemma fetched_links:
  assumes "http_get env seed = Some p" and "AppendResult link \<in> set (callbacks p)"
  shows "AbsoluteURL env seed link \<in> page_links env seed"
  using assms callbacks_links [of link p] by (simp add: page_links_def)

lemma goroutine_step_seed_only:
  assumes "MaxDepth c = 1" and "seed_only env seed st" and "at_seed env seed g"
  shows "seed_only env seed (goroutine_step env c i g st)"
proof (cases "(env, c, i, g, st)" rule: goroutine_step.cases)
  case (1 env' c' i' u d st')
  with assms show ?thesis
    by (auto simp: seed_only_def fetched_links split: option.splits dest!: set_update_cases)
next
  case (4 env' c' i' u d link ops st')
  with assms have "scrape env c (AbsoluteURL env u link) (d + 1) st = st"
    by (intro scrape_too_deep) simp_all
  with 4 assms show ?thesis
    by (auto simp: seed_only_def dest!: set_update_cases)
next
  case (6 env' c' i' u d b link ops st')
  with assms show ?thesis
    by (cases b) (auto simp: seed_only_def dest!: set_update_cases)
qed (use assms in \<open>auto simp: seed_only_def split: prod.splits option.splits
                     dest!: set_update_cases\<close>)

lemma step_seed_only:
  assumes "MaxDepth c = 1" and "seed_only env seed st"
  shows "seed_only env seed (step env c i st)"
proof (cases "i < length (goroutines st)")
  case True
  then have "goroutines st ! i \<in> set (goroutines st)" by simp
  with assms(2) have "at_seed env seed (goroutines st ! i)" by (simp add: seed_only_def)
  with assms True show ?thesis by (simp add: step_def goroutine_step_seed_only)
next
  case False
  with assms(2) show ?thesis by (simp add: step_def)
qed

lemma crawl_from_seed_only:
  assumes "MaxDepth c = 1"
  shows "list_all (\<lambda>r. req_url r = seed \<and> req_depth r = 1)
           (sent (crawl_from env c sched m seed))
         \<and> set (recorded (crawl_from env c sched m seed)) \<subseteq> page_links env seed"
proof -
  let ?st0 = "scrape env c seed 1
                \<lparr>sm = m, results = [], visited = {}, requests = [], goroutines = []\<rparr>"
  have "seed_only env seed ?st0"
    by (simp add: seed_only_def scrape_def split: option.splits)
  then have "seed_only env seed (fold (step env c) sched ?st0)"
    by (rule fold_step_invariant [rotated]) (rule step_seed_only [OF assms])
  then show ?thesis
    by (simp add: crawl_from_def Let_def seed_only_def list_all_iff)
qed

section \<open>The dedup map during a crawl and across crawls\<close>

lemma pending_ok_mono:
  "pending_ok env m0 m g \<Longrightarrow> (\<And>x. m x \<noteq> None \<Longrightarrow> m' x \<noteq> None) \<Longrightarrow> pending_ok env m0 m' g"
  by (cases "(env, m0, m, g)" rule: pending_ok.cases) auto

lemma scrape_dedup_inv:
  "dedup_inv env m0 st \<Longrightarrow> dedup_inv env m0 (scrape env c u d st)"
  by (auto simp: dedup_inv_def scrape_def split: option.splits)

lemma sm_scrape [simp]: "sm (scrape env c u d st) = sm st"
  by (simp add: scrape_def split: option.splits)

lemma results_scrape [simp]: "results (scrape env c u d st) = results st"
  by (simp add: scrape_def split: option.splits)

lemma goroutines_scrape:
  "g \<in> set (goroutines (scrape env c u d st)) \<Longrightarrow> g \<in> set (goroutines st) \<or> g = Fetch u d"
  by (auto simp: scrape_def split: option.splits if_splits)

lemma goroutine_step_dedup_inv:
  assumes "dedup_inv env m0 st" and "pending_ok env m0 (sm st) g"
  shows "dedup_inv env m0 (goroutine_step env c i g st)"
proof (cases "(env, c, i, g, st)" rule: goroutine_step.cases)
  case (1 env' c' i' u d st')
  with assms show ?thesis
    by (auto simp: dedup_inv_def split: option.splits dest!: set_update_cases)
next
  case (2 env' c' i' u d st')
  with assms show ?thesis
    by (auto simp: dedup_inv_def dest!: set_update_cases)
next
  case (3 env' c' i' u d link ops st')
  with assms show ?thesis
    by (auto simp: dedup_inv_def split: option.splits dest!: set_update_cases)
next
  case (4 env' c' i' u d link ops st')
  with assms show ?thesis
    by (auto simp: dedup_inv_def dest!: set_update_cases goroutines_scrape)
next
  case (5 env' c' i' u d b st')
  with assms show ?thesis
    by (auto simp: dedup_inv_def dest!: set_update_cases)
next
  case (6 env' c' i' u d b link ops st')
  with assms show ?thesis
    by (cases b) (auto simp: dedup_inv_def dest!: set_update_cases)
next
  case (7 env' c' i' u d b link ops st')
  with assms show ?thesis
    by (auto simp: dedup_inv_def dest!: set_update_cases)
next
  case (8 env' c' i' u d r ops st')
  have new: "pending_ok env m0 (sm st) (Handle u d (Some (Absent r)) ops)" if "sm st r = None"
  proof -
    from that assms(1) have "m0 r = None" by (auto simp: dedup_inv_def)
    with assms(2) 8 show ?thesis
      by (cases "(env, m0, sm st, Handle u d (Some (Absent r)) ops)" rule: pending_ok.cases) auto
  qed
  have old: "pending_ok env m0 (sm st) (Handle u d (Some (Returned False)) ops)"
    by (cases "(env, m0, sm st, Handle u d (Some (Returned False)) ops)" rule: pending_ok.cases)
       auto
  from assms(1) 8 new old show ?thesis
    by (cases "sm st r") (auto simp: dedup_inv_def dest!: set_update_cases)
next
  case (9 env' c' i' u d r ops st')
  let ?m = "(sm st)(r \<mapsto> True)"
  have others: "pending_ok env m0 ?m h" if "h \<in> set (goroutines st)" for h
  proof (rule pending_ok_mono)
    from assms(1) that show "pending_ok env m0 (sm st) h" by (simp add: dedup_inv_def)
  next
    fix x
    assume "sm st x \<noteq> None"
    then show "?m x \<noteq> None" by auto
  qed
  have new: "pending_ok env m0 ?m (Handle u d (Some (Returned True)) ops)"
    using assms(2) 9
    by (cases "(env, m0, ?m, Handle u d (Some (Returned True)) ops)" rule: pending_ok.cases)
       auto
  from assms(1) 9 new others show ?thesis
    by (auto simp: dedup_inv_def dest!: set_update_cases)
next
  case (10 env' c' i' st')
  with assms show ?thesis by simp
qed


lemma step_dedup_inv:
  assumes "dedup_inv env m0 st"
  shows "dedup_inv env m0 (step env c i st)"
proof (cases "i < length (goroutines st)")
  case True
  then have "goroutines st ! i \<in> set (goroutines st)" by simp
  with assms have "pending_ok env m0 (sm st) (goroutines st ! i)" by (simp add: dedup_inv_def)
  with assms True show ?thesis by (simp add: step_def goroutine_step_dedup_inv)
next
  case False
  with assms show ?thesis by (simp add: step_def)
qed

lemma crawl_from_dedup:
  assumes "crawl_from env c sched m url = Returns rs st"
  shows "(\<forall>x \<in> set rs. m x = None \<and> sm st x \<noteq> None \<and> x \<noteq> [])
         \<and> (\<forall>x. m x \<noteq> None \<longrightarrow> sm st x \<noteq> None)"
proof -
  let ?st0 = "scrape env c url 1
                \<lparr>sm = m, results = [], visited = {}, requests = [], goroutines = []\<rparr>"
  have "dedup_inv env m \<lparr>sm = m, results = [], visited = {}, requests = [], goroutines = []\<rparr>"
    by (simp add: dedup_inv_def)
  then have "dedup_inv env m ?st0" by (rule scrape_dedup_inv)
  then have "dedup_inv env m (fold (step env c) sched ?st0)"
    by (rule fold_step_invariant [rotated]) (rule step_dedup_inv)
  moreover from assms have "st = fold (step env c) sched ?st0" and "rs = results st"
    by (auto simp: crawl_from_def Let_def split: if_splits)
  ultimately show ?thesis by (auto simp: dedup_inv_def)
qed

lemma StartCrawler_dedup:
  assumes "StartCrawler env sched m url threads depth subsInScope insecure rawHeaders
             = Returns rs st"
  shows "(\<forall>x \<in> set rs. m x = None \<and> sm st x \<noteq> None \<and> x \<noteq> [])
         \<and> (\<forall>x. m x \<noteq> None \<longrightarrow> sm st x \<noteq> None)"
proof (cases env sched m url threads depth subsInScope insecure rawHeaders
         rule: StartCrawler_cases)
  case (panic e)
  with assms show ?thesis by simp
next
  case early
  with assms show ?thesis by auto
next
  case (crawl c)
  with assms have "crawl_from env c sched m (default_scheme url) = Returns rs st" by simp
  then show ?thesis by (rule crawl_from_dedup)
qed

lemma crawl_lines_new:
  "crawl_lines m seeds threads depth subsInScope insecure rawHeaders = Some printed \<Longrightarrow>
   rs \<in> set printed \<Longrightarrow> x \<in> set rs \<Longrightarrow> m x = None"
proof (induction seeds arbitrary: m printed)
  case Nil
  then show ?case by simp
next
  case (Cons seed seeds)
  obtain env sched url where seed: "seed = (env, sched, url)" by (cases seed)
  from Cons.prems(1) seed obtain rs0 st rest where
    first: "StartCrawler env sched m url threads depth subsInScope insecure rawHeaders
              = Returns rs0 st"
    and rest: "crawl_lines (sm st) seeds threads depth subsInScope insecure rawHeaders = Some rest"
    and printed: "printed = rs0 # rest"
    by (auto split: outcome.splits option.splits)
  from StartCrawler_dedup [OF first]
  have a: "\<forall>x \<in> set rs0. m x = None" and b: "\<forall>x. m x \<noteq> None \<longrightarrow> sm st x \<noteq> None"
    by auto
  from Cons.prems(2) printed consider "rs = rs0" | "rs \<in> set rest" by auto
  then show ?case
  proof cases
    case 1
    with a Cons.prems(3) show ?thesis by simp
  next
    case 2
    with Cons.IH [OF rest] Cons.prems(3) have "sm st x = None" by blast
    with b show ?thesis by blast
  qed
qed

section \<open>The claims\<close>

text \<open>
  C1. The claim: every call of \<open>StartCrawler\<close> starts with a fresh dedup state, so
  a URL that an earlier crawl of the same run recorded is recorded again when a later
  crawl finds it. The code keeps one map for the whole process and never resets it:
  crawling the same one-page site twice in a run, the second crawl fetches the page
  again, finds the script again, and records nothing.
\<close>

theorem second_crawl_drops_known_url:
  "crawl_lines Map.empty [(site1, [0, 0, 0, 0, 0], ''a/''), (site1, [0, 0, 0, 0, 0], ''a/'')]
       5 2 False False []
     = Some [[''http://a/x.js''], []]
   \<and> map req_url (sent (StartCrawler site1 [0, 0, 0, 0, 0] [''http://a/x.js'' \<mapsto> True]
                          ''a/'' 5 2 False False []))
       = [''http://a/'']"
proof -
  have a: "crawl_lines Map.empty
             [(site1, [0, 0, 0, 0, 0], ''a/''), (site1, [0, 0, 0, 0, 0], ''a/'')]
             5 2 False False []
           = Some [[''http://a/x.js''], []]"
    by (simp add: crawl_defs site1_def one_page_def)
  have b: "map req_url (sent (StartCrawler site1 [0, 0, 0, 0, 0] [''http://a/x.js'' \<mapsto> True]
                          ''a/'' 5 2 False False []))
       = [''http://a/'']"
    by (simp add: crawl_defs site1_def one_page_def)
  from a b show ?thesis by blast
qed

text \<open>
  C1, as the code has it: the dedup map is shared by all crawls of a process run. Each
  call of \<open>StartCrawler\<close> starts from the map the call before left, so a URL that one
  crawl recorded is never recorded again by a later crawl of the same run: the result
  lists printed for any two input lines have no URL in common.
\<close>

theorem no_url_recorded_by_two_crawls:
  assumes "crawl_lines m seeds threads depth subsInScope insecure rawHeaders = Some printed"
    and "i < j" and "j < length printed"
  shows "set (printed ! i) \<inter> set (printed ! j) = {}"
  using assms
proof (induction seeds arbitrary: m printed i j)
  case Nil
  then show ?case by simp
next
  case (Cons seed seeds)
  obtain env sched url where seed: "seed = (env, sched, url)" by (cases seed)
  from Cons.prems(1) seed obtain rs0 st rest where
    first: "StartCrawler env sched m url threads depth subsInScope insecure rawHeaders
              = Returns rs0 st"
    and rest: "crawl_lines (sm st) seeds threads depth subsInScope insecure rawHeaders = Some rest"
    and printed: "printed = rs0 # rest"
    by (auto split: outcome.splits option.splits)
  from Cons.prems(2) obtain j' where j: "j = Suc j'" by (cases j) auto
  with Cons.prems(3) printed have j': "j' < length rest" by simp
  show ?case
  proof (cases i)
    case 0
    have "x \<notin> set (rest ! j')" if "x \<in> set rs0" for x
    proof
      assume "x \<in> set (rest ! j')"
      moreover from j' have "rest ! j' \<in> set rest" by simp
      ultimately have "sm st x = None" using crawl_lines_new [OF rest] by blast
      moreover from StartCrawler_dedup [OF first] that have "sm st x \<noteq> None" by blast
      ultimately show False by contradiction
    qed
    with 0 j printed show ?thesis by auto
  next
    case (Suc i')
    with Cons.prems(2) j have "i' < j'" by simp
    from Cons.IH [OF rest this j'] Suc j printed show ?thesis by simp
  qed
qed

theorem no_url_recorded_by_two_crawls_witness:
  "crawl_lines Map.empty
       [(site1, [0, 0, 0, 0, 0], ''a/''), (site2, [0, 0, 0, 0, 0, 0, 1, 1, 1, 1, 1], ''a/'')]
       5 2 False False []
     = Some [[''http://a/x.js''], [''http://a/1'', ''http://a/deep.js'']]
   \<and> (0 :: nat) < 1
   \<and> 1 < length [[''http://a/x.js''], [''http://a/1'', ''http://a/deep.js'']]
   \<and> set ([[''http://a/x.js''], [''http://a/1'', ''http://a/deep.js'']] ! 0)
       \<inter> set ([[''http://a/x.js''], [''http://a/1'', ''http://a/deep.js'']] ! 1) = {}"
proof -
  have first: "StartCrawler site1 [0, 0, 0, 0, 0] Map.empty ''a/'' 5 2 False False []
     = Returns [''http://a/x.js'']
        \<lparr>sm = [''http://a/x.js'' \<mapsto> True], results = [''http://a/x.js''],
         visited = {''http://a/''},
         requests = [\<lparr>req_url = ''http://a/'', req_depth = 1,
            req_agent = ''Mozilla/5.0 (X11; Linux x86_64; rv:78.0) Gecko/20100101 Firefox/78.0'',
            req_set = Map.empty\<rparr>],
         goroutines = [Done]\<rparr>"
    by (simp add: crawl_defs site1_def one_page_def)
  have "returned (StartCrawler site2 [0, 0, 0, 0, 0, 0, 1, 1, 1, 1, 1]
                    [''http://a/x.js'' \<mapsto> True] ''a/'' 5 2 False False [])
          = Some [''http://a/1'', ''http://a/deep.js'']"
    by (simp add: crawl_defs site2_def two_pages_def)
  then obtain st where second:
    "StartCrawler site2 [0, 0, 0, 0, 0, 0, 1, 1, 1, 1, 1] [''http://a/x.js'' \<mapsto> True] ''a/''
       5 2 False False [] = Returns [''http://a/1'', ''http://a/deep.js''] st"
    by (cases "StartCrawler site2 [0, 0, 0, 0, 0, 0, 1, 1, 1, 1, 1]
                 [''http://a/x.js'' \<mapsto> True] ''a/'' 5 2 False False []") auto
  have h: "crawl_lines Map.empty
       [(site1, [0, 0, 0, 0, 0], ''a/''), (site2, [0, 0, 0, 0, 0, 0, 1, 1, 1, 1, 1], ''a/'')]
       5 2 False False []
     = Some [[''http://a/x.js''], [''http://a/1'', ''http://a/deep.js'']]"
    using second by (simp add: first)
  have i: "(0 :: nat) < 1" by simp
  have j: "1 < length [[''http://a/x.js''], [''http://a/1'', ''http://a/deep.js'']]" by simp
  from h i j no_url_recorded_by_two_crawls [OF h i j] show ?thesis by blast
qed

text \<open>
  C2. The claim: with \<open>maxDepth = 0\<close> no link found on the seed's page is fetched, and
  only links of that page are returned. The depth goes to colly as it is, and for colly
  \<open>MaxDepth\<close> 0 is no limit: the page that the front page links to is fetched, and the
  script found there is among the results.
\<close>

theorem depth_zero_follows_links:
  "map req_url (sent (StartCrawler site2 [0, 0, 0, 0, 0, 0, 1, 1, 1, 1, 1] Map.empty
                        ''a/'' 5 0 False False []))
     = [''http://a/'', ''http://a/1'']
   \<and> returned (StartCrawler site2 [0, 0, 0, 0, 0, 0, 1, 1, 1, 1, 1] Map.empty
                  ''a/'' 5 0 False False [])
       = Some [''http://a/1'', ''http://a/deep.js'']"
proof -
  have a: "map req_url (sent (StartCrawler site2 [0, 0, 0, 0, 0, 0, 1, 1, 1, 1, 1] Map.empty
                        ''a/'' 5 0 False False []))
     = [''http://a/'', ''http://a/1'']"
    by (simp add: crawl_defs site2_def two_pages_def)
  have b: "returned (StartCrawler site2 [0, 0, 0, 0, 0, 0, 1, 1, 1, 1, 1] Map.empty
                  ''a/'' 5 0 False False [])
       = Some [''http://a/1'', ''http://a/deep.js'']"
    by (simp add: crawl_defs site2_def two_pages_def)
  from a b show ?thesis by blast
qed

text \<open>
  C2, as the code has it: the seed is visited at depth 1 and every link one deeper than
  the page it stands on, so it is \<open>maxDepth = 1\<close> that keeps the crawl to the seed's own
  page: every request that goes out is the one for the seed, and every result is a
  link that stands on the seed's page.
\<close>

theorem depth_one_fetches_seed_only:
  "list_all (\<lambda>r. req_url r = default_scheme url \<and> req_depth r = 1)
     (sent (StartCrawler env sched m url threads 1 subsInScope insecure rawHeaders))
   \<and> set (recorded (StartCrawler env sched m url threads 1 subsInScope insecure rawHeaders))
       \<subseteq> page_links env (default_scheme url)"
proof (cases env sched m url threads "1::int" subsInScope insecure rawHeaders
         rule: StartCrawler_cases)
  case (panic e)
  then show ?thesis by simp
next
  case early
  then show ?thesis by simp
next
  case (crawl c)
  then show ?thesis
    using crawl_from_seed_only [where c = c and env = env and seed = "default_scheme url"]
    by simp
qed

theorem depth_one_fetches_seed_only_witness:
  "map req_url (sent (StartCrawler site2 [0, 0, 0, 0, 0, 0, 1, 1, 1, 1, 1] Map.empty
                        ''a/'' 5 1 False False []))
     = [''http://a/'']
   \<and> returned (StartCrawler site2 [0, 0, 0, 0, 0, 0, 1, 1, 1, 1, 1] Map.empty
                  ''a/'' 5 1 False False [])
       = Some [''http://a/1'']
   \<and> list_all (\<lambda>r. req_url r = ''http://a/'' \<and> req_depth r = 1)
        (sent (StartCrawler site2 [0, 0, 0, 0, 0, 0, 1, 1, 1, 1, 1] Map.empty
                 ''a/'' 5 1 False False []))
   \<and> set (recorded (StartCrawler site2 [0, 0, 0, 0, 0, 0, 1, 1, 1, 1, 1] Map.empty
                      ''a/'' 5 1 False False []))
       \<subseteq> page_links site2 ''http://a/''"
proof -
  have a: "map req_url (sent (StartCrawler site2 [0, 0, 0, 0, 0, 0, 1, 1, 1, 1, 1] Map.empty
                        ''a/'' 5 1 False False []))
     = [''http://a/'']"
    by (simp add: crawl_defs site2_def two_pages_def)
  have b: "returned (StartCrawler site2 [0, 0, 0, 0, 0, 0, 1, 1, 1, 1, 1] Map.empty
                  ''a/'' 5 1 False False [])
       = Some [''http://a/1'']"
    by (simp add: crawl_defs site2_def two_pages_def)
  have c: "default_scheme ''a/'' = ''http://a/''"
    by (simp add: default_scheme_def HasPrefix_def)
  from a b depth_one_fetches_seed_only
         [of "''a/''" site2 "[0, 0, 0, 0, 0, 0, 1, 1, 1, 1, 1]" Map.empty 5 False False "[]"]
  show ?thesis unfolding c by blast
qed

text \<open>
  C3. The claim: \<open>isUnique\<close> is one atomic test-and-set, so of any number of concurrent
  callers with the same URL exactly one gets \<open>true\<close>. The code does a \<open>Load\<close> and then a
  \<open>Store\<close>. With two callers and the order Load, Load, Store, Store, both find the URL
  absent and both get \<open>true\<close>.
\<close>

theorem isUnique_both_true:
  "run_calls [0, 1, 0, 1] (Map.empty, [Calling url, Calling url])
     = (Map.empty(url \<mapsto> True), [Returned True, Returned True])"
  by (simp add: run_calls_def call_step_def)

text \<open>
  C4. The claim: in subdomain mode the filter admits exactly the URLs on the seed's host
  or a subdomain of it; \<open>example.com.evil.com\<close> is not admitted. For the seed
  \<open>example.com\<close> the filter does admit \<open>http://api.example.com/y\<close> and does reject
  \<open>http://notexample.com/z\<close>, but it admits \<open>http://example.com.evil.com/\<close> as well:
  nothing ties the end of the pattern to the end of the host. A crawl of \<open>example.com\<close>
  whose front page links there sends a request to \<open>example.com.evil.com\<close> in subdomain
  mode, and none in the default mode.
\<close>

theorem subdomain_filter_admits_foreign_host:
  "admits ''example.com'' ''http://api.example.com/y'' = Some True
   \<and> admits ''example.com'' ''http://notexample.com/z'' = Some False
   \<and> admits ''example.com'' ''http://example.com.evil.com/'' = Some True
   \<and> map req_url (sent (StartCrawler site4 [0, 0, 0, 0, 0, 0, 1, 1] Map.empty
                          ''example.com'' 5 2 True False []))
       = [''http://example.com'', ''http://example.com.evil.com/'']
   \<and> map req_url (sent (StartCrawler site4 [0, 0, 0, 0, 0, 0, 1, 1] Map.empty
                          ''example.com'' 5 2 False False []))
       = [''http://example.com'']"
proof -
  have a: "admits ''example.com'' ''http://api.example.com/y'' = Some True"
    by (simp add: admits_def re2_def isMatchingFilter_def Compile_example)
  have b: "admits ''example.com'' ''http://notexample.com/z'' = Some False"
    by (simp add: admits_def re2_def isMatchingFilter_def Compile_example)
  have c: "admits ''example.com'' ''http://example.com.evil.com/'' = Some True"
    by (simp add: admits_def re2_def isMatchingFilter_def Compile_example)
  have d: "map req_url (sent (StartCrawler site4 [0, 0, 0, 0, 0, 0, 1, 1] Map.empty
                          ''example.com'' 5 2 True False []))
       = [''http://example.com'', ''http://example.com.evil.com/'']"
    by (simp add: crawl_defs site4_def evil_link_def Compile_example)
  have e: "map req_url (sent (StartCrawler site4 [0, 0, 0, 0, 0, 0, 1, 1] Map.empty
                          ''example.com'' 5 2 False False []))
       = [''http://example.com'']"
    by (simp add: crawl_defs site4_def evil_link_def)
  from a b c d e show ?thesis by blast
qed

text \<open>
  C5. \<open>parseHeaders("Cookie: a=b;;Referer: http://x/")\<close> is the map with \<open>Cookie\<close>
  \<open>a=b\<close> and \<open>Referer\<close> \<open>http://x/\<close>; \<open>parseHeaders("badheader")\<close> fails with the
  malformed-headers error; \<open>parseHeaders("")\<close> is the empty map.
\<close>

theorem parseHeaders_examples:
  "parseHeaders ''Cookie: a=b;;Referer: http://x/''
     = Inr [''Cookie'' \<mapsto> ''a=b'', ''Referer'' \<mapsto> ''http://x/'']
   \<and> parseHeaders ''badheader'' = Inl MalformedHeaders
   \<and> parseHeaders [] = Inr Map.empty"
proof -
  have split: "Split ''Cookie: a=b;;Referer: http://x/'' '';;''
                 = [''Cookie: a=b'', ''Referer: http://x/'']"
    by (simp add: Split.simps HasPrefix_def)
  have colon: "Contains ''Cookie: a=b;;Referer: http://x/'' '':''"
    by (simp add: Contains_def HasPrefix_def)
  have c1: "Contains ''Cookie: a=b'' '': ''"
    by (simp add: Contains_def HasPrefix_def)
  have c2: "Contains ''Referer: http://x/'' '': ''"
    by (simp add: Contains_def HasPrefix_def)
  have s1: "SplitN2 ''Cookie: a=b'' '': '' = [''Cookie'', ''a=b'']"
    by (simp add: SplitN2_def HasPrefix_def)
  have s2: "SplitN2 ''Referer: http://x/'' '': '' = [''Referer'', ''http://x/'']"
    by (simp add: SplitN2_def HasPrefix_def)
  have t1: "TrimSpace ''Cookie'' = ''Cookie''" by (simp add: trim_defs)
  have t2: "TrimSpace ''a=b'' = ''a=b''" by (simp add: trim_defs)
  have t3: "TrimSpace ''Referer'' = ''Referer''" by (simp add: trim_defs)
  have t4: "TrimSpace ''http://x/'' = ''http://x/''" by (simp add: trim_defs)
  have "add_headers [''Cookie: a=b'', ''Referer: http://x/''] Map.empty
          = Inr [''Cookie'' \<mapsto> ''a=b'', ''Referer'' \<mapsto> ''http://x/'']"
    by (simp add: c1 c2 s1 s2 t1 t2 t3 t4)
  then have first: "parseHeaders ''Cookie: a=b;;Referer: http://x/''
     = Inr [''Cookie'' \<mapsto> ''a=b'', ''Referer'' \<mapsto> ''http://x/'']"
    unfolding parseHeaders_def split using colon by simp
  have second: "parseHeaders ''badheader'' = Inl MalformedHeaders"
    by (simp add: parseHeaders_def Contains_def HasPrefix_def)
  have third: "parseHeaders [] = Inr Map.empty"
    by (simp add: parseHeaders_def)
  from first second third show ?thesis by blast
qed

text \<open>
  C6. When the seed URL (with \<open>http://\<close> put in front where lines 38 to 41 do so) does not
  parse, \<open>StartCrawler\<close> returns the empty list at once: no request has gone out, no
  goroutine was started and the dedup map is as it was.
\<close>

theorem unparsable_seed_short_circuits:
  assumes "url_Parse env (default_scheme url) = None"
  shows "StartCrawler env sched m url threads depth subsInScope insecure rawHeaders
           = Returns [] \<lparr>sm = m, results = [], visited = {}, requests = [], goroutines = []\<rparr>"
proof -
  have "extractHostname env (default_scheme url) = Inl URLParseError"
    using assms by (simp add: extractHostname_def)
  then show ?thesis
    using parseHeaders_no_panic [of rawHeaders]
    by (simp add: StartCrawler_def split: sum.splits error.splits)
qed

theorem unparsable_seed_short_circuits_witness:
  "url_Parse site0 (default_scheme ''::'') = None
   \<and> returned (StartCrawler site0 [0, 1, 0] Map.empty ''::'' 5 2 True False ''Cookie: a=b'')
       = Some []
   \<and> sent (StartCrawler site0 [0, 1, 0] Map.empty ''::'' 5 2 True False ''Cookie: a=b'') = []"
proof -
  have h: "url_Parse site0 (default_scheme ''::'') = None"
    by (simp add: site0_def no_parse_def)
  show ?thesis
    using h unparsable_seed_short_circuits [OF h, of "[0, 1, 0]" Map.empty 5 2 True False
        "''Cookie: a=b''"]
    by simp
qed

text \<open>
  C7. For raw headers that are not empty and hold no colon, \<open>parseHeaders\<close> fails with
  the malformed-headers error, and \<open>StartCrawler\<close> goes on all the same: the call does
  what it does when no headers are given at all, and no request carries a custom
  header.
\<close>

theorem malformed_headers_ignored:
  assumes "rawHeaders \<noteq> []" and "\<not> Contains rawHeaders '':''"
  shows "parseHeaders rawHeaders = Inl MalformedHeaders
    \<and> StartCrawler env sched m url threads depth subsInScope insecure rawHeaders
        = StartCrawler env sched m url threads depth subsInScope insecure []
    \<and> list_all (\<lambda>r. req_set r = Map.empty)
         (sent (StartCrawler env sched m url threads depth subsInScope insecure rawHeaders))"
proof -
  have bad: "parseHeaders rawHeaders = Inl MalformedHeaders"
    using assms by (simp add: parseHeaders_def)
  have none: "parseHeaders [] = Inr Map.empty"
    by (simp add: parseHeaders_def)
  have same: "StartCrawler env sched m url threads depth subsInScope insecure rawHeaders
        = StartCrawler env sched m url threads depth subsInScope insecure []"
  proof (cases "extractHostname env (default_scheme url)")
    case (Inl err)
    then show ?thesis by (simp add: StartCrawler_def bad none)
  next
    case (Inr hostname)
    let ?c = "collector hostname threads depth insecure None"
    have c: "collector hostname threads depth insecure (Some Map.empty)
               = ?c\<lparr>OnRequest := Some Map.empty\<rparr>"
      by (simp add: collector_def)
    have plain: "crawl_from env ?c sched m (default_scheme url)
        = crawl_from env (collector hostname threads depth insecure (Some Map.empty))
            sched m (default_scheme url)"
      unfolding c by (rule crawl_from_nil_headers) (simp add: collector_def)
    have subs: "crawl_from env (?c\<lparr>AllowedDomains := [], URLFilters := [re]\<rparr>)
                  sched m (default_scheme url)
        = crawl_from env
            ((collector hostname threads depth insecure (Some Map.empty))
               \<lparr>AllowedDomains := [], URLFilters := [re]\<rparr>)
            sched m (default_scheme url)" for re
    proof -
      have "(collector hostname threads depth insecure (Some Map.empty))
               \<lparr>AllowedDomains := [], URLFilters := [re]\<rparr>
            = (?c\<lparr>AllowedDomains := [], URLFilters := [re]\<rparr>)\<lparr>OnRequest := Some Map.empty\<rparr>"
        by (simp add: collector_def)
      then show ?thesis
        using crawl_from_nil_headers
          [of "?c\<lparr>AllowedDomains := [], URLFilters := [re]\<rparr>" env sched m "default_scheme url"]
        by (simp add: collector_def)
    qed
    show ?thesis
      using Inr plain subs by (simp add: StartCrawler_def bad none split: option.splits)
  qed
  have "req_set r = Map.empty"
    if "r \<in> set (sent (StartCrawler env sched m url threads depth subsInScope insecure rawHeaders))"
    for r
  proof (cases "extractHostname env (default_scheme url)")
    case (Inl err)
    with that show ?thesis by (simp add: StartCrawler_def bad)
  next
    case (Inr hostname)
    show ?thesis
    proof (cases subsInScope)
      case False
      with that Inr
      have "r \<in> set (sent (crawl_from env (collector hostname threads depth insecure None)
                            sched m (default_scheme url)))"
        by (simp add: StartCrawler_def bad)
      from sent_crawl_from [OF this] show ?thesis by (simp add: collector_def)
    next
      case True
      show ?thesis
      proof (cases "regexp_MustCompile env (filter_pattern hostname)")
        case None
        with that Inr True show ?thesis by (simp add: StartCrawler_def bad)
      next
        case (Some re)
        with that Inr True
        have "r \<in> set (sent (crawl_from env
                 ((collector hostname threads depth insecure None)
                    \<lparr>AllowedDomains := [], URLFilters := [re]\<rparr>)
                 sched m (default_scheme url)))"
          by (simp add: StartCrawler_def bad)
        from sent_crawl_from [OF this] show ?thesis by (simp add: collector_def)
      qed
    qed
  qed
  then have "list_all (\<lambda>r. req_set r = Map.empty)
         (sent (StartCrawler env sched m url threads depth subsInScope insecure rawHeaders))"
    by (simp add: list_all_iff)
  with bad same show ?thesis by blast
qed

theorem malformed_headers_ignored_witness:
  "''badheader'' \<noteq> [] \<and> \<not> Contains ''badheader'' '':''
   \<and> parseHeaders ''badheader'' = Inl MalformedHeaders
   \<and> returned (StartCrawler site1 [0, 0, 0, 0, 0] Map.empty ''a/'' 5 2 False False ''badheader'')
       = Some [''http://a/x.js'']"
proof -
  have h1: "''badheader'' \<noteq> []" by simp
  have h2: "\<not> Contains ''badheader'' '':''"
    by (simp add: Contains_def HasPrefix_def)
  have run: "returned (StartCrawler site1 [0, 0, 0, 0, 0] Map.empty ''a/'' 5 2 False False [])
               = Some [''http://a/x.js'']"
    by (simp add: crawl_defs site1_def one_page_def)
  from h1 h2 run
    malformed_headers_ignored
      [OF h1 h2, of site1 "[0, 0, 0, 0, 0]" Map.empty "''a/''" 5 2 False False]
  show ?thesis by simp
qed

text \<open>
  C8. The claim: the array that \<open>CStartCrawler\<close> returns holds the results in order and
  a NUL terminator behind the last one. The code allocates the cell for the terminator
  (\<open>len(results) + 1\<close>) but never writes to it, and \<open>malloc\<close> does not clear memory: on
  a block that held something else, the last cell still holds it.
\<close>

theorem CStartCrawler_last_cell_unwritten:
  "CStartCrawler stale_memory site1 [0, 0, 0, 0, 0] Map.empty ''a/'' 5 2 False False []
     = Some [CString ''http://a/x.js'', Stale 7]"
  by (simp add: CStartCrawler_def marshal_def stale_memory_def crawl_defs site1_def one_page_def)

text \<open>
  C9. The claim: the list a crawl returns has no duplicates. Two pages that are handled
  at the same time and load the same script can both find it absent from the dedup map
  before either stores it (the race of C3), and both append it.
\<close>

theorem crawl_returns_duplicate:
  "returned (StartCrawler site3
       [0, 0, 0, 0, 0, 0, 0, 0, 0, 0, 1, 2, 1, 2, 1, 2, 1, 2, 1, 2]
       Map.empty ''a/'' 5 2 False False [])
     = Some [''http://a/1'', ''http://a/2'', ''http://a/x.js'', ''http://a/x.js'']"
  by (simp add: crawl_defs site3_def three_pages_def)

text \<open>
  C10. The seed that \<open>StartCrawler\<close> works with is the URL itself when its first four
  characters are \<open>http\<close>, and the URL with \<open>http://\<close> in front otherwise. It is this
  seed that the hostname is extracted from and that the crawl starts at: when the seed
  does not parse, the call returns the empty list; when it parses, the collector is
  made for the seed's hostname and visits the seed.
\<close>

theorem scheme_defaulting:
  assumes "seed = (if take 4 url = ''http'' then url else ''http://'' @ url)"
  shows "default_scheme url = seed
   \<and> (url_Parse env seed = None \<longrightarrow>
        StartCrawler env sched m url threads depth subsInScope insecure rawHeaders
          = Returns []
              \<lparr>sm = m, results = [], visited = {}, requests = [], goroutines = []\<rparr>)
   \<and> (url_Parse env seed = Some u \<longrightarrow>
        StartCrawler env sched m url threads depth subsInScope insecure rawHeaders
          = (if subsInScope then
               (case regexp_MustCompile env (filter_pattern (Hostname u)) of
                  None \<Rightarrow> Panics RegexpError
                | Some re \<Rightarrow>
                    crawl_from env
                      ((collector (Hostname u) threads depth insecure
                          (case parseHeaders rawHeaders of Inl e \<Rightarrow> None | Inr h \<Rightarrow> Some h))
                         \<lparr>AllowedDomains := [], URLFilters := [re]\<rparr>)
                      sched m seed)
             else
               crawl_from env
                 (collector (Hostname u) threads depth insecure
                    (case parseHeaders rawHeaders of Inl e \<Rightarrow> None | Inr h \<Rightarrow> Some h))
                 sched m seed))"
proof -
  have four: "length ''http'' = 4" by simp
  have "take 4 url = ''http'' \<Longrightarrow> 4 \<le> length url"
    by (cases "4 \<le> length url") auto
  then have prefix: "HasPrefix url ''http'' \<longleftrightarrow> take 4 url = ''http''"
    unfolding HasPrefix_def four by blast
  have seed: "default_scheme url = seed"
    using assms by (simp add: default_scheme_def prefix)
  have fails: "StartCrawler env sched m url threads depth subsInScope insecure rawHeaders
          = Returns []
              \<lparr>sm = m, results = [], visited = {}, requests = [], goroutines = []\<rparr>"
    if "url_Parse env seed = None"
    unfolding StartCrawler_def seed extractHostname_def
    using that parseHeaders_no_panic [of rawHeaders]
    by (simp split: sum.splits error.splits option.splits)
  have parses: "StartCrawler env sched m url threads depth subsInScope insecure rawHeaders
          = (if subsInScope then
               (case regexp_MustCompile env (filter_pattern (Hostname u)) of
                  None \<Rightarrow> Panics RegexpError
                | Some re \<Rightarrow>
                    crawl_from env
                      ((collector (Hostname u) threads depth insecure
                          (case parseHeaders rawHeaders of Inl e \<Rightarrow> None | Inr h \<Rightarrow> Some h))
                         \<lparr>AllowedDomains := [], URLFilters := [re]\<rparr>)
                      sched m seed)
             else
               crawl_from env
                 (collector (Hostname u) threads depth insecure
                    (case parseHeaders rawHeaders of Inl e \<Rightarrow> None | Inr h \<Rightarrow> Some h))
                 sched m seed)"
    if "url_Parse env seed = Some u"
    unfolding StartCrawler_def seed extractHostname_def
    using that parseHeaders_no_panic [of rawHeaders]
    by (simp split: sum.splits error.splits option.splits)
  from seed fails parses show ?thesis by simp
qed

theorem scheme_defaulting_witness:
  "default_scheme ''ftp://example.com'' = ''http://ftp://example.com''
   \<and> default_scheme ''httpfoo'' = ''httpfoo''
   \<and> url_Parse site1 ''http://ftp://example.com'' = Some \<lparr>Host = ''ftp:'', Hostname = ''ftp''\<rparr>
   \<and> StartCrawler site1 [0] Map.empty ''ftp://example.com'' 5 2 False False []
       = crawl_from site1 (collector ''ftp'' 5 2 False (Some Map.empty)) [0] Map.empty
           ''http://ftp://example.com''
   \<and> url_Parse site0 ''http://::'' = None
   \<and> returned (StartCrawler site0 [0] Map.empty ''::'' 5 2 False False []) = Some []"
proof -
  have s1: "''http://ftp://example.com''
              = (if take 4 ''ftp://example.com'' = ''http'' then ''ftp://example.com''
                 else ''http://'' @ ''ftp://example.com'')"
    by simp
  have s2: "''httpfoo'' = (if take 4 ''httpfoo'' = ''http'' then ''httpfoo''
                           else ''http://'' @ ''httpfoo'')"
    by simp
  have s3: "''http://::'' = (if take 4 ''::'' = ''http'' then ''::'' else ''http://'' @ ''::'')"
    by simp
  have p1: "url_Parse site1 ''http://ftp://example.com''
              = Some \<lparr>Host = ''ftp:'', Hostname = ''ftp''\<rparr>"
    by (simp add: site1_def parse_simple_def before_def behind_def HasPrefix_def)
  have p3: "url_Parse site0 ''http://::'' = None"
    by (simp add: site0_def no_parse_def)
  have h: "parseHeaders [] = Inr Map.empty"
    by (simp add: parseHeaders_def)
  from p1 p3 h
    scheme_defaulting [OF s1, of site1 "[0]" Map.empty 5 2 False False "[]"
                         "\<lparr>Host = ''ftp:'', Hostname = ''ftp''\<rparr>"]
    scheme_defaulting [OF s2]
    scheme_defaulting [OF s3, of site0 "[0]" Map.empty 5 2 False False "[]"]
  show ?thesis by simp
qed

end
